theory Spec2Isabelle
  imports Main "HOL-Library.Sublist"
begin

section \<open>The site cloner: \<open>downloadAsset\<close> and \<open>cloneWebsite\<close>\<close>

text \<open>
  A shallow embedding of the cloning core of the repository (the file whose tools are
  \<open>cloneWebsite\<close>, \<open>analyzeWebsite\<close> and \<open>generateNodeApp\<close>): \<open>safeFilename\<close>,
  \<open>downloadAsset\<close> and \<open>cloneWebsite\<close> with its phases (discovery, batch download,
  result processing, CSS processing, HTML rewriting, final write, manifest).

  JavaScript strings are modelled as \<open>string\<close> (lists of 8-bit characters), so
  \<open>\s\<close> and \<open>trim\<close> see the ASCII white space only and \<open>toLowerCase\<close> changes the
  ASCII letters only. An \<open>async\<close> function whose steps are awaited one after the other is
  modelled as a function on the world, taken and returned. The platform is POSIX:
  \<open>path.sep\<close> is \<open>/\<close>, hence \<open>.split(path.sep).join('/')\<close> is the identity.
\<close>

subsection \<open>JavaScript string and array helpers\<close>

text \<open>\<open>Array.prototype.join(sep)\<close>.\<close>

fun join_with :: "string \<Rightarrow> string list \<Rightarrow> string" where
  "join_with sep [] = []"
| "join_with sep [x] = x"
| "join_with sep (x # y # ys) = x @ sep @ join_with sep (y # ys)"

text \<open>\<open>String.prototype.split(c)\<close> for a one-character separator: the empty string
  splits into one empty piece.\<close>

fun split_on :: "char \<Rightarrow> string \<Rightarrow> string list" where
  "split_on c [] = [[]]"
| "split_on c (x # xs) =
     (if x = c then [] # split_on c xs
      else (case split_on c xs of [] \<Rightarrow> [[x]] | y # ys \<Rightarrow> (x # y) # ys))"

definition is_space :: "char \<Rightarrow> bool" where
  "is_space c = (c \<in> set [CHR '' '', CHR 0x09, CHR 0x0A, CHR 0x0B, CHR 0x0C, CHR 0x0D])"

text \<open>\<open>String.prototype.trim()\<close>.\<close>

definition trim :: "string \<Rightarrow> string" where
  "trim s = rev (dropWhile is_space (rev (dropWhile is_space s)))"

text \<open>\<open>s.split(/\s+/)\<close>: the pieces between maximal runs of white space.\<close>

function split_ws :: "string \<Rightarrow> string list" where
  "split_ws [] = [[]]"
| "split_ws (x # xs) =
     (if is_space x then [] # split_ws (dropWhile is_space xs)
      else (case split_ws xs of [] \<Rightarrow> [[x]] | y # ys \<Rightarrow> (x # y) # ys))"
  by pat_completeness auto
termination
  by (relation "measure length") (auto simp: length_dropWhile_le less_Suc_eq_le)

text \<open>A value is truthy when it is neither \<open>undefined\<close> nor the empty string:
  \<open>!value\<close>, \<open>a || b\<close> and \<open>if (x)\<close> on strings.\<close>

fun truthy :: "string option \<Rightarrow> bool" where
  "truthy None = False"
| "truthy (Some v) = (v \<noteq> [])"

text \<open>\<open>a || b\<close> on an optional string.\<close>

fun or_else :: "string option \<Rightarrow> string \<Rightarrow> string" where
  "or_else None d = d"
| "or_else (Some v) d = (if v = [] then d else v)"

definition to_lower_char :: "char \<Rightarrow> char" where
  "to_lower_char c =
     (let n = (of_char c :: nat) in if 65 \<le> n \<and> n \<le> 90 then char_of (n + 32) else c)"

definition toLowerCase :: "string \<Rightarrow> string" where
  "toLowerCase s = map to_lower_char s"

text \<open>The decimal digits of a number, as a template literal prints \<open>Date.now()\<close>.\<close>

fun show_nat :: "nat \<Rightarrow> string" where
  "show_nat n =
     (if n < 10 then [char_of (48 + n)] else show_nat (n div 10) @ [char_of (48 + n mod 10)])"

declare show_nat.simps [simp del]

subsection \<open>Node's \<open>path\<close> module (POSIX)\<close>

text \<open>\<open>normalizeString\<close>: empty and \<open>.\<close> segments are dropped, \<open>..\<close> removes the
  segment before it (or is kept, above the root of a relative path).\<close>

fun normalize_segs :: "bool \<Rightarrow> string list \<Rightarrow> string list \<Rightarrow> string list" where
  "normalize_segs allowAboveRoot res [] = res"
| "normalize_segs allowAboveRoot res (s # ss) =
     (if s = [] \<or> s = ''.'' then normalize_segs allowAboveRoot res ss
      else if s = ''..'' then
        (if res \<noteq> [] \<and> last res \<noteq> ''..'' then normalize_segs allowAboveRoot (butlast res) ss
         else if allowAboveRoot then normalize_segs allowAboveRoot (res @ [''..'']) ss
         else normalize_segs allowAboveRoot res ss)
      else normalize_segs allowAboveRoot (res @ [s]) ss)"

definition normalizeString :: "string \<Rightarrow> bool \<Rightarrow> string" where
  "normalizeString path allowAboveRoot =
     join_with ''/'' (normalize_segs allowAboveRoot [] (split_on CHR ''/'' path))"

definition path_normalize :: "string \<Rightarrow> string" where
  "path_normalize path =
     (if path = [] then ''.''
      else
        let isAbsolute = (hd path = CHR ''/'');
            trailingSeparator = (last path = CHR ''/'');
            p = normalizeString path (\<not> isAbsolute)
        in if p = [] then (if isAbsolute then ''/'' else if trailingSeparator then ''./'' else ''.'')
           else (if isAbsolute then ''/'' else []) @ p @ (if trailingSeparator then ''/'' else []))"

text \<open>\<open>path.join(...args)\<close>.\<close>

definition path_join :: "string list \<Rightarrow> string" where
  "path_join args =
     (let joined = join_with ''/'' (filter (\<lambda>a. a \<noteq> []) args)
      in if joined = [] then ''.'' else path_normalize joined)"

text \<open>\<open>path.resolve(p)\<close>, the working directory \<open>wd\<close> being absolute.\<close>

definition path_resolve :: "string \<Rightarrow> string \<Rightarrow> string" where
  "path_resolve wd p =
     (let full = (if p \<noteq> [] \<and> hd p = CHR ''/'' then p else wd @ ''/'' @ p)
      in ''/'' @ normalizeString full False)"

text \<open>\<open>path.dirname(p)\<close>: up to the last separator that is followed by a segment.\<close>

definition path_dirname :: "string \<Rightarrow> string" where
  "path_dirname path =
     (if path = [] then ''.''
      else
        let hasRoot = (hd path = CHR ''/'');
            r = dropWhile (\<lambda>c. c \<noteq> CHR ''/'') (dropWhile (\<lambda>c. c = CHR ''/'') (rev (tl path)))
        in if r = [] then (if hasRoot then ''/'' else ''.'')
           else if hasRoot \<and> length r = 1 then ''//''
           else take (length r) path)"

text \<open>The segments of a resolved path.\<close>

definition segments :: "string \<Rightarrow> string list" where
  "segments p = filter (\<lambda>s. s \<noteq> []) (split_on CHR ''/'' p)"

fun strip_common :: "string list \<Rightarrow> string list \<Rightarrow> string list \<times> string list" where
  "strip_common (x # xs) (y # ys) = (if x = y then strip_common xs ys else (x # xs, y # ys))"
| "strip_common xs ys = (xs, ys)"

text \<open>\<open>path.relative(from, to)\<close>: one \<open>..\<close> for every segment of \<open>from\<close> after the
  common directory, then the rest of \<open>to\<close>.\<close>

definition path_relative :: "string \<Rightarrow> string \<Rightarrow> string \<Rightarrow> string" where
  "path_relative wd from to =
     (if from = to then []
      else
        let f = path_resolve wd from; t = path_resolve wd to
        in if f = t then []
           else
             (case strip_common (segments f) (segments t) of
                (fs, ts) \<Rightarrow> join_with ''/'' (replicate (length fs) ''..'' @ ts)))"

subsection \<open>The environment: URL parser, HTTP client, HTML parser, clock, file system\<close>

text \<open>
  What the code takes from outside the repository is a parameter of the model:
  \<^item> \<open>URL_new ref base\<close> is \<open>new URL(ref)\<close> (\<open>base = None\<close>) or \<open>new URL(ref, base)\<close>, with the
    base given by its \<open>href\<close>; \<open>None\<close> is the \<open>TypeError\<close> of an unparseable reference;
  \<^item> \<open>axios_get n u\<close> is the body of the \<open>n\<close>-th request of the run when it asks for \<open>u\<close>
    (\<open>None\<close>: the request is rejected: network error, timeout, status outside 2xx), so that
    a URL asked for twice may be answered differently, whatever the headers;
  \<^item> \<open>load\<close> and \<open>html\<close> are cheerio's parser and serialiser;
  \<^item> \<open>cwd\<close> is \<open>process.cwd()\<close> and \<open>now\<close> is \<open>Date.now()\<close>;
  \<^item> \<open>fs_fails w op p\<close> tells whether the file-system call \<open>op\<close> on the path \<open>p\<close> is rejected
    in the world \<open>w\<close> (the path is a directory, a parent is a file, the disk is full, ...).

  The world the job acts on holds the files (by resolved path) and the requests sent so
  far. Directories are implicit: an \<open>fs.mkdir\<close> that succeeds changes no file. An
  \<open>fs.writeFile\<close> that succeeds stores the content; one that is rejected stores nothing.
\<close>

record world =
  files :: "string \<Rightarrow> string option"
  requests :: "string list"

datatype fs_op = Mkdir | WriteFile | ReadFile

record url =
  href :: string
  pathname :: string
  hostname :: string

record element =
  tag :: string
  attrs :: "(string \<times> string) list"

record env =
  cwd :: string
  now :: nat
  URL_new :: "string \<Rightarrow> string option \<Rightarrow> url option"
  axios_get :: "nat \<Rightarrow> string \<Rightarrow> string option"
  load :: "string \<Rightarrow> element list"
  html :: "element list \<Rightarrow> string"
  fs_fails :: "world \<Rightarrow> fs_op \<Rightarrow> string \<Rightarrow> bool"

text \<open>\<open>fs.writeFile\<close> is rejected when the path ends with a separator (such a path names
  a directory), and whenever the file system rejects it.\<close>

definition writeFile_fails :: "env \<Rightarrow> world \<Rightarrow> string \<Rightarrow> bool" where
  "writeFile_fails e w p =
     (if p \<noteq> [] \<and> last p = CHR ''/'' then True else fs_fails e w WriteFile p)"

text \<open>The effect of an \<open>fs.writeFile\<close> that succeeds, and \<open>fs.readFile\<close> (\<open>None\<close>: it is
  rejected, or there is no such file).\<close>

definition fs_writeFile :: "env \<Rightarrow> world \<Rightarrow> string \<Rightarrow> string \<Rightarrow> world" where
  "fs_writeFile e w p content = w\<lparr>files := (files w)(path_resolve (cwd e) p := Some content)\<rparr>"

definition fs_readFile :: "env \<Rightarrow> world \<Rightarrow> string \<Rightarrow> string option" where
  "fs_readFile e w p = (if fs_fails e w ReadFile p then None else files w (path_resolve (cwd e) p))"

subsection \<open>\<open>safeFilename\<close> and \<open>downloadAsset\<close>\<close>

text \<open>\<open>p.replace(/[:?#<>\\|*"]/g, '_')\<close>.\<close>

definition unsafe_char :: "char \<Rightarrow> bool" where
  "unsafe_char c =
     (c \<in> set [CHR '':'', CHR ''?'', CHR ''#'', CHR ''<'', CHR ''>'', CHR 0x5C, CHR ''|'',
               CHR ''*'', CHR 0x22])"

definition safeFilename :: "string \<Rightarrow> string" where
  "safeFilename p = map (\<lambda>c. if unsafe_char c then CHR ''_'' else c) p"

text \<open>The errors the code raises or catches.\<close>

datatype error =
  RequestFailed
| InvalidURL string
| PathTraversalAttempt string
| FsError

datatype outcome =
  Ok string string string
| Failed string error

fun ok :: "outcome \<Rightarrow> bool" where
  "ok (Ok outPath content u) = True"
| "ok (Failed u e) = False"

fun outcome_url :: "outcome \<Rightarrow> string" where
  "outcome_url (Ok outPath content u) = u"
| "outcome_url (Failed u e) = u"

text \<open>\<open>u.pathname.replace(/^\//, '')\<close>.\<close>

fun strip_leading_slash :: "string \<Rightarrow> string" where
  "strip_leading_slash [] = []"
| "strip_leading_slash (c # cs) = (if c = CHR ''/'' then cs else c # cs)"

text \<open>The path \<open>downloadAsset\<close> computes for a parsed URL: \<open>path.join(outBaseDir, rel || 'index.html')\<close>.\<close>

definition asset_outPath :: "url \<Rightarrow> string \<Rightarrow> string" where
  "asset_outPath u outBaseDir =
     (let rel = safeFilename (strip_leading_slash (pathname u))
      in path_join [outBaseDir, if rel = [] then ''index.html'' else rel])"

text \<open>
  \<open>downloadAsset(urlStr, outBaseDir, headers)\<close>: the request, then the path, the security
  check (\<open>startsWith\<close> on the resolved paths), \<open>fs.mkdir\<close> of the directory and
  \<open>fs.writeFile\<close>. Whatever is raised inside is caught and returned as
  \<open>{ok: false, url, error}\<close>.
\<close>

definition downloadAsset :: "env \<Rightarrow> world \<Rightarrow> string \<Rightarrow> string \<Rightarrow> outcome \<times> world" where
  "downloadAsset e w urlStr outBaseDir =
     (let w1 = w\<lparr>requests := requests w @ [urlStr]\<rparr>
      in case axios_get e (length (requests w)) urlStr of
           None \<Rightarrow> (Failed urlStr RequestFailed, w1)
         | Some content \<Rightarrow>
             (case URL_new e urlStr None of
                None \<Rightarrow> (Failed urlStr (InvalidURL urlStr), w1)
              | Some u \<Rightarrow>
                  let outPath = asset_outPath u outBaseDir
                  in if \<not> prefix (path_resolve (cwd e) outBaseDir) (path_resolve (cwd e) outPath)
                     then (Failed urlStr (PathTraversalAttempt urlStr), w1)
                     else if fs_fails e w1 Mkdir (path_dirname outPath) then (Failed urlStr FsError, w1)
                     else if writeFile_fails e w1 outPath then (Failed urlStr FsError, w1)
                     else (Ok outPath content urlStr, fs_writeFile e w1 outPath content)))"

subsection \<open>Asset discovery\<close>

text \<open>The \<open>Set\<close> of discovered URLs, in insertion order.\<close>

definition set_add :: "string list \<Rightarrow> string \<Rightarrow> string list" where
  "set_add xs x = (if x \<in> set xs then xs else xs @ [x])"

text \<open>The catalogue \<open>assetSelectors\<close>: a selector \<open>tag[attr]\<close> and the attribute it reads,
  in the order of \<open>Object.entries\<close>.\<close>

definition assetSelectors :: "(string \<times> string) list" where
  "assetSelectors =
     [(''link'', ''href''), (''script'', ''src''), (''img'', ''src''), (''img'', ''srcset''),
      (''source'', ''src''), (''audio'', ''src''), (''video'', ''src''), (''video'', ''poster''),
      (''meta'', ''content''), (''object'', ''data'')]"

definition attr_get :: "element \<Rightarrow> string \<Rightarrow> string option" where
  "attr_get el a = map_of (attrs el) a"

text \<open>Setting a property of an object, or an attribute of an element: an existing key
  keeps its place, a new one is added last. The keys of \<open>urlToLocal\<close> are the \<open>href\<close>s of
  parsed URLs, which start with a scheme and a colon: none of them is an index or the name
  of a property that a plain object inherits, so the object is a dictionary in insertion
  order.\<close>

fun obj_set :: "(string \<times> string) list \<Rightarrow> string \<Rightarrow> string \<Rightarrow> (string \<times> string) list" where
  "obj_set [] k v = [(k, v)]"
| "obj_set ((k', v') # m) k v = (if k' = k then (k, v) # m else (k', v') # obj_set m k v)"

definition obj_get :: "(string \<times> string) list \<Rightarrow> string \<Rightarrow> string option" where
  "obj_get m k = map_of m k"

definition attr_set :: "element \<Rightarrow> string \<Rightarrow> string \<Rightarrow> element" where
  "attr_set el a v = el\<lparr>attrs := obj_set (attrs el) a v\<rparr>"

text \<open>An element matches \<open>tag[attr]\<close> when it has that tag and carries that attribute.\<close>

definition matches :: "string \<times> string \<Rightarrow> element \<Rightarrow> bool" where
  "matches sel el = (tag el = fst sel \<and> attr_get el (snd sel) \<noteq> None)"

text \<open>The \<open>srcset\<close> branch of discovery: \<open>new URL(url, base)\<close> stands outside any
  \<open>try\<close>, so an unparseable token raises.\<close>

fun discover_srcset :: "env \<Rightarrow> url \<Rightarrow> string list \<Rightarrow> string list \<Rightarrow> error + string list" where
  "discover_srcset e base [] assetSet = Inr assetSet"
| "discover_srcset e base (part # parts) assetSet =
     (case split_ws (trim part) of
        [] \<Rightarrow> discover_srcset e base parts assetSet
      | u # descriptors \<Rightarrow>
          if u = [] then discover_srcset e base parts assetSet
          else (case URL_new e u (Some (href base)) of
                  None \<Rightarrow> Inl (InvalidURL u)
                | Some a \<Rightarrow> discover_srcset e base parts (set_add assetSet (href a))))"

text \<open>The callback of \<open>$(selector).each\<close> in discovery.\<close>

definition discover_el :: "env \<Rightarrow> url \<Rightarrow> string \<Rightarrow> element \<Rightarrow> string list \<Rightarrow> error + string list" where
  "discover_el e base attr el assetSet =
     (case attr_get el attr of
        None \<Rightarrow> Inr assetSet
      | Some v \<Rightarrow>
          if v = [] then Inr assetSet
          else if attr = ''srcset'' then discover_srcset e base (split_on CHR '','' v) assetSet
          else (case URL_new e v (Some (href base)) of
                  None \<Rightarrow> Inr assetSet
                | Some a \<Rightarrow> Inr (set_add assetSet (href a))))"

fun discover_each ::
  "env \<Rightarrow> url \<Rightarrow> string \<times> string \<Rightarrow> element list \<Rightarrow> string list \<Rightarrow> error + string list" where
  "discover_each e base sel [] assetSet = Inr assetSet"
| "discover_each e base sel (el # els) assetSet =
     (if matches sel el then
        (case discover_el e base (snd sel) el assetSet of
           Inl err \<Rightarrow> Inl err
         | Inr s \<Rightarrow> discover_each e base sel els s)
      else discover_each e base sel els assetSet)"

fun discover_all ::
  "env \<Rightarrow> url \<Rightarrow> (string \<times> string) list \<Rightarrow> element list \<Rightarrow> string list \<Rightarrow> error + string list" where
  "discover_all e base [] doc assetSet = Inr assetSet"
| "discover_all e base (sel # sels) doc assetSet =
     (case discover_each e base sel doc assetSet of
        Inl err \<Rightarrow> Inl err
      | Inr s \<Rightarrow> discover_all e base sels doc s)"

definition discover :: "env \<Rightarrow> url \<Rightarrow> element list \<Rightarrow> error + string list" where
  "discover e base doc = discover_all e base assetSelectors doc []"

subsection \<open>Batch download and the URL-to-local map\<close>

definition BATCH_SIZE :: nat where
  "BATCH_SIZE = 5"

text \<open>One batch: \<open>Promise.all\<close> over \<open>downloadAsset\<close>, which never rejects. The downloads
  of a batch are taken in the order of the batch.\<close>

fun download_batch :: "env \<Rightarrow> world \<Rightarrow> string \<Rightarrow> string list \<Rightarrow> outcome list \<times> world" where
  "download_batch e w assetsDir [] = ([], w)"
| "download_batch e w assetsDir (u # us) =
     (case downloadAsset e w u assetsDir of
        (r, w1) \<Rightarrow> (case download_batch e w1 assetsDir us of (rs, w2) \<Rightarrow> (r # rs, w2)))"

text \<open>\<open>for (let i = 0; i < assetUrls.length; i += BATCH_SIZE)\<close>, collecting \<open>downloadResults\<close>.\<close>

function batch_loop :: "env \<Rightarrow> world \<Rightarrow> string \<Rightarrow> string list \<Rightarrow> nat \<Rightarrow> outcome list \<times> world" where
  "batch_loop e w assetsDir assetUrls i =
     (if i < length assetUrls then
        (case download_batch e w assetsDir (take BATCH_SIZE (drop i assetUrls)) of
           (batchResults, w1) \<Rightarrow>
             (case batch_loop e w1 assetsDir assetUrls (i + BATCH_SIZE) of
                (rest, w2) \<Rightarrow> (batchResults @ rest, w2)))
      else ([], w))"
  by pat_completeness auto
termination
  by (relation "measure (\<lambda>(e, w, assetsDir, assetUrls, i). length assetUrls - i)")
    (auto simp: BATCH_SIZE_def)

declare batch_loop.simps [simp del]

text \<open>\<open>downloadResults.forEach\<close>: a success sets \<open>urlToLocal[r.url]\<close>.\<close>

fun process_results ::
  "env \<Rightarrow> string \<Rightarrow> outcome list \<Rightarrow> (string \<times> string) list \<Rightarrow> (string \<times> string) list" where
  "process_results e outDir [] m = m"
| "process_results e outDir (Ok outPath content u # rs) m =
     process_results e outDir rs (obj_set m u (path_relative (cwd e) outDir outPath))"
| "process_results e outDir (Failed u err # rs) m = process_results e outDir rs m"

subsection \<open>CSS processing\<close>

text \<open>
  The pattern \<open>/url\((?:'|"|)([^'")]+)(?:'|"|)\)/g\<close>. A match at the start of \<open>s\<close> is
  \<open>url(\<close>, a quote if there is one, the longest non-empty run of characters other than
  quotes and \<open>)\<close> (the captured reference), a quote if there is one, and \<open>)\<close>; no shorter
  run can be followed by \<open>)\<close>, so backtracking finds nothing else. The result is the
  matched text, the reference and the text after the match.
\<close>

definition is_quote :: "char \<Rightarrow> bool" where
  "is_quote c = (c = CHR 0x27 \<or> c = CHR 0x22)"

definition ref_char :: "char \<Rightarrow> bool" where
  "ref_char c = (\<not> is_quote c \<and> c \<noteq> CHR '')'')"

fun eat_quote :: "string \<Rightarrow> string \<times> string" where
  "eat_quote [] = ([], [])"
| "eat_quote (c # cs) = (if is_quote c then ([c], cs) else ([], c # cs))"

definition css_match_at :: "string \<Rightarrow> (string \<times> string \<times> string) option" where
  "css_match_at s =
     (if \<not> prefix ''url('' s then None
      else
        (case eat_quote (drop 4 s) of
           (q1, s2) \<Rightarrow>
             (case eat_quote (dropWhile ref_char s2) of
                (q2, s4) \<Rightarrow>
                  if takeWhile ref_char s2 = [] then None
                  else
                    (case s4 of
                       [] \<Rightarrow> None
                     | c # rest \<Rightarrow>
                         if c = CHR '')''
                         then Some (''url('' @ q1 @ takeWhile ref_char s2 @ q2 @ '')'',
                                    takeWhile ref_char s2, rest)
                         else None))))"

text \<open>The stylesheet as the global pattern cuts it: the matches, and the characters
  between them.\<close>

datatype css_token = Lit char | UrlMatch string string

lemma eat_quote_length: "eat_quote s = (q, t) \<Longrightarrow> length t \<le> length s"
  by (cases s) (auto split: if_splits)

lemma css_match_at_shorter:
  assumes "css_match_at s = Some (m, r, rest)"
  shows "length rest < length s"
proof -
  obtain q1 s2 where a: "eat_quote (drop 4 s) = (q1, s2)" by force
  obtain q2 s4 where b: "eat_quote (dropWhile ref_char s2) = (q2, s4)" by force
  from assms a b obtain c where c: "s4 = c # rest"
    by (auto simp: css_match_at_def split: if_splits list.splits)
  have "length s2 \<le> length s" using eat_quote_length [OF a] by simp
  moreover have "length s4 \<le> length s2"
    using eat_quote_length [OF b] length_dropWhile_le [of ref_char s2] by simp
  ultimately show ?thesis using c by simp
qed

function css_scan :: "string \<Rightarrow> css_token list" where
  "css_scan [] = []"
| "css_scan (c # cs) =
     (case css_match_at (c # cs) of
        Some (m, r, rest) \<Rightarrow> UrlMatch m r # css_scan rest
      | None \<Rightarrow> Lit c # css_scan cs)"
  by pat_completeness auto
termination
  by (relation "measure length") (auto dest: css_match_at_shorter)

text \<open>The captured references, in the order \<open>urlRegex.exec\<close> yields them.\<close>

fun css_refs :: "css_token list \<Rightarrow> string list" where
  "css_refs [] = []"
| "css_refs (Lit c # ts) = css_refs ts"
| "css_refs (UrlMatch m r # ts) = r # css_refs ts"

text \<open>\<open>text.replace(urlRegex, f)\<close>.\<close>

fun css_replace :: "(string \<Rightarrow> string \<Rightarrow> string) \<Rightarrow> css_token list \<Rightarrow> string" where
  "css_replace f [] = []"
| "css_replace f (Lit c # ts) = c # css_replace f ts"
| "css_replace f (UrlMatch m r # ts) = f m r @ css_replace f ts"

text \<open>\<open>/^data:/.test(assetRef)\<close>.\<close>

definition is_data :: "string \<Rightarrow> bool" where
  "is_data assetRef = prefix ''data:'' assetRef"

text \<open>The body of the \<open>while\<close> loop over the matches: a reference that is no \<open>data:\<close> URI
  is resolved against the stylesheet's URL and, unless the map has a truthy entry for it,
  downloaded; a success extends the map, a failure leaves it as it is.\<close>

definition css_fetch_ref ::
  "env \<Rightarrow> string \<Rightarrow> string \<Rightarrow> string \<Rightarrow> (string \<times> string) list \<times> world \<Rightarrow> string
     \<Rightarrow> (string \<times> string) list \<times> world" where
  "css_fetch_ref e outDir assetsDir originalUrl mw assetRef =
     (if is_data assetRef then mw
      else
        (case URL_new e assetRef (Some originalUrl) of
           None \<Rightarrow> mw
         | Some a \<Rightarrow>
             if \<not> truthy (obj_get (fst mw) (href a)) then
               (case downloadAsset e (snd mw) (href a) assetsDir of
                  (Ok outPath content u, w1) \<Rightarrow>
                    (obj_set (fst mw) (href a) (path_relative (cwd e) outDir outPath), w1)
                | (Failed u err, w1) \<Rightarrow> (fst mw, w1))
             else mw))"

fun css_fetch_loop ::
  "env \<Rightarrow> string \<Rightarrow> string \<Rightarrow> string \<Rightarrow> string list \<Rightarrow> (string \<times> string) list \<times> world
     \<Rightarrow> (string \<times> string) list \<times> world" where
  "css_fetch_loop e outDir assetsDir originalUrl [] mw = mw"
| "css_fetch_loop e outDir assetsDir originalUrl (r # rs) mw =
     css_fetch_loop e outDir assetsDir originalUrl rs
       (css_fetch_ref e outDir assetsDir originalUrl mw r)"

text \<open>The callback of \<open>cssContentRaw.replace\<close>.\<close>

definition css_replacer ::
  "env \<Rightarrow> string \<Rightarrow> string \<Rightarrow> string \<Rightarrow> (string \<times> string) list \<Rightarrow> string \<Rightarrow> string \<Rightarrow> string" where
  "css_replacer e outDir originalUrl cssFullPath m match assetRef =
     (if is_data assetRef then match
      else
        (case URL_new e assetRef (Some originalUrl) of
           None \<Rightarrow> match
         | Some a \<Rightarrow>
             if truthy (obj_get m (href a)) then
               ''url('' @ [CHR 0x27]
                 @ path_relative (cwd e) (path_dirname cssFullPath)
                     (path_join [outDir, or_else (obj_get m (href a)) []])
                 @ [CHR 0x27] @ '')''
             else match))"

text \<open>The rewritten text of a stylesheet, for a given map.\<close>

definition css_rewrite ::
  "env \<Rightarrow> string \<Rightarrow> string \<Rightarrow> string \<Rightarrow> (string \<times> string) list \<Rightarrow> string \<Rightarrow> string" where
  "css_rewrite e outDir originalUrl cssFullPath m cssContentRaw =
     css_replace (css_replacer e outDir originalUrl cssFullPath m) (css_scan cssContentRaw)"

text \<open>The write-back: \<open>if (cssContent !== cssContentRaw) await fs.writeFile(...)\<close>; a
  rejected write is caught by the \<open>catch\<close> around the stylesheet.\<close>

definition css_write_back :: "env \<Rightarrow> world \<Rightarrow> string \<Rightarrow> string \<Rightarrow> string \<Rightarrow> world" where
  "css_write_back e w cssFullPath cssContentRaw cssContent =
     (if cssContent \<noteq> cssContentRaw then
        (if writeFile_fails e w cssFullPath then w else fs_writeFile e w cssFullPath cssContent)
      else w)"

text \<open>The body of the loop over \<open>Object.entries(urlToLocal)\<close>; a stylesheet that cannot be
  read is given up (the outer \<open>catch\<close>).\<close>

definition css_process ::
  "env \<Rightarrow> string \<Rightarrow> string \<Rightarrow> (string \<times> string) list \<times> world \<Rightarrow> string \<times> string
     \<Rightarrow> (string \<times> string) list \<times> world" where
  "css_process e outDir assetsDir mw entry =
     (if suffix ''.css'' (toLowerCase (fst entry)) then
        let cssFullPath = path_join [outDir, snd entry]
        in (case fs_readFile e (snd mw) cssFullPath of
              None \<Rightarrow> mw
            | Some cssContentRaw \<Rightarrow>
                (case css_fetch_loop e outDir assetsDir (fst entry)
                        (css_refs (css_scan cssContentRaw)) mw of
                   (m1, w1) \<Rightarrow>
                     (m1, css_write_back e w1 cssFullPath cssContentRaw
                            (css_rewrite e outDir (fst entry) cssFullPath m1 cssContentRaw))))
      else mw)"

fun css_phase ::
  "env \<Rightarrow> string \<Rightarrow> string \<Rightarrow> (string \<times> string) list \<Rightarrow> (string \<times> string) list \<times> world
     \<Rightarrow> (string \<times> string) list \<times> world" where
  "css_phase e outDir assetsDir [] mw = mw"
| "css_phase e outDir assetsDir (entry # entries) mw =
     css_phase e outDir assetsDir entries (css_process e outDir assetsDir mw entry)"

subsection \<open>HTML rewriting\<close>

text \<open>One entry of a \<open>srcset\<close>; \<open>None\<close> when \<open>new URL(url, base)\<close> raises.\<close>

definition srcset_entry :: "env \<Rightarrow> (string \<times> string) list \<Rightarrow> url \<Rightarrow> string \<Rightarrow> string option" where
  "srcset_entry e m base part =
     (case split_ws (trim part) of
        [] \<Rightarrow> None
      | u # descriptors \<Rightarrow>
          (case URL_new e u (Some (href base)) of
             None \<Rightarrow> None
           | Some a \<Rightarrow> Some (join_with '' '' (or_else (obj_get m (href a)) u # descriptors))))"

fun srcset_entries ::
  "env \<Rightarrow> (string \<times> string) list \<Rightarrow> url \<Rightarrow> string list \<Rightarrow> string list option" where
  "srcset_entries e m base [] = Some []"
| "srcset_entries e m base (part # parts) =
     (case srcset_entry e m base part of
        None \<Rightarrow> None
      | Some x \<Rightarrow>
          (case srcset_entries e m base parts of None \<Rightarrow> None | Some xs \<Rightarrow> Some (x # xs)))"

definition rewrite_srcset :: "env \<Rightarrow> (string \<times> string) list \<Rightarrow> url \<Rightarrow> string \<Rightarrow> string option" where
  "rewrite_srcset e m base v =
     (case srcset_entries e m base (split_on CHR '','' v) of
        None \<Rightarrow> None
      | Some xs \<Rightarrow> Some (join_with '', '' xs))"

definition placeholder :: "string \<Rightarrow> string \<Rightarrow> string" where
  "placeholder width height =
     ''https://placehold.co/'' @ width @ ''x'' @ height @ ''/EEE/31343C?text=Failed+to+Load''"

text \<open>The callback of \<open>$(selector).each\<close> in \<open>mapAttr\<close>; whatever raises inside leaves
  the element as it is.\<close>

definition mapAttr_el :: "env \<Rightarrow> (string \<times> string) list \<Rightarrow> url \<Rightarrow> string \<Rightarrow> element \<Rightarrow> element" where
  "mapAttr_el e m base attr el =
     (case attr_get el attr of
        None \<Rightarrow> el
      | Some v \<Rightarrow>
          if v = [] then el
          else if attr = ''srcset'' then
            (case rewrite_srcset e m base v of
               None \<Rightarrow> el
             | Some newSrcset \<Rightarrow> attr_set el attr newSrcset)
          else
            (case URL_new e v (Some (href base)) of
               None \<Rightarrow> el
             | Some a \<Rightarrow>
                 if truthy (obj_get m (href a)) then attr_set el attr (or_else (obj_get m (href a)) [])
                 else if attr \<in> set [''src'', ''poster''] then
                   attr_set el ''src''
                     (placeholder (or_else (attr_get el ''width'') ''400'')
                        (or_else (attr_get el ''height'') ''300''))
                 else el))"

definition mapAttr ::
  "env \<Rightarrow> (string \<times> string) list \<Rightarrow> url \<Rightarrow> string \<times> string \<Rightarrow> element list \<Rightarrow> element list" where
  "mapAttr e m base sel doc =
     map (\<lambda>el. if matches sel el then mapAttr_el e m base (snd sel) el else el) doc"

fun rewrite_html ::
  "env \<Rightarrow> (string \<times> string) list \<Rightarrow> url \<Rightarrow> (string \<times> string) list \<Rightarrow> element list \<Rightarrow> element list" where
  "rewrite_html e m base [] doc = doc"
| "rewrite_html e m base (sel # sels) doc = rewrite_html e m base sels (mapAttr e m base sel doc)"

subsection \<open>\<open>cloneWebsite\<close>\<close>

record manifest =
  status :: string
  message :: string
  dir :: string
  assetsCount :: nat
  failedDownloads :: nat

text \<open>How a call ends: it returns the error string, it returns the manifest, or an
  error leaves the function (the promise is rejected).\<close>

datatype result =
  Returned_String string
| Returned_Manifest manifest
| Thrown error

definition job_outDir :: "env \<Rightarrow> url \<Rightarrow> string" where
  "job_outDir e base =
     path_join [cwd e, ''clones'', safeFilename (hostname base) @ ''_'' @ show_nat (now e)]"

definition job_assetsDir :: "env \<Rightarrow> url \<Rightarrow> string" where
  "job_assetsDir e base = path_join [job_outDir e base, ''assets'']"

text \<open>The job once the page is parsed and its assets are discovered: batch download,
  result processing, CSS processing, HTML rewriting, the final write and the manifest.\<close>

definition job_results :: "env \<Rightarrow> world \<Rightarrow> url \<Rightarrow> string list \<Rightarrow> outcome list \<times> world" where
  "job_results e w base assetUrls = batch_loop e w (job_assetsDir e base) assetUrls 0"

definition job_initial_map :: "env \<Rightarrow> world \<Rightarrow> url \<Rightarrow> string list \<Rightarrow> (string \<times> string) list" where
  "job_initial_map e w base assetUrls =
     process_results e (job_outDir e base) (fst (job_results e w base assetUrls)) []"

text \<open>The map and the world once the stylesheets \<open>entries\<close> have been processed; the
  loop runs over \<open>Object.entries(urlToLocal)\<close> as it is when the loop starts.\<close>

definition job_css_after ::
  "env \<Rightarrow> world \<Rightarrow> url \<Rightarrow> string list \<Rightarrow> (string \<times> string) list \<Rightarrow> (string \<times> string) list \<times> world" where
  "job_css_after e w base assetUrls entries =
     css_phase e (job_outDir e base) (job_assetsDir e base) entries
       (job_initial_map e w base assetUrls, snd (job_results e w base assetUrls))"

definition job_css :: "env \<Rightarrow> world \<Rightarrow> url \<Rightarrow> string list \<Rightarrow> (string \<times> string) list \<times> world" where
  "job_css e w base assetUrls =
     job_css_after e w base assetUrls (job_initial_map e w base assetUrls)"

text \<open>The path of the final write.\<close>

definition job_indexPath :: "env \<Rightarrow> url \<Rightarrow> string" where
  "job_indexPath e base = path_join [job_outDir e base, ''index.html'']"

definition job_finish :: "env \<Rightarrow> world \<Rightarrow> url \<Rightarrow> element list \<Rightarrow> string list \<Rightarrow> result \<times> world" where
  "job_finish e w base doc assetUrls =
     (let outDir = job_outDir e base;
          downloadResults = fst (job_results e w base assetUrls);
          urlToLocal = fst (job_css e w base assetUrls);
          w3 = snd (job_css e w base assetUrls);
          doc1 = rewrite_html e urlToLocal base assetSelectors doc
      in if writeFile_fails e w3 (job_indexPath e base) then (Thrown FsError, w3)
         else
           (Returned_Manifest
              \<lparr>status = ''success'', message = ''Cloned site to '' @ outDir, dir = outDir,
               assetsCount = length (map fst urlToLocal),
               failedDownloads = length (filter (\<lambda>r. \<not> ok r) downloadResults)\<rparr>,
            fs_writeFile e w3 (job_indexPath e base) (html e doc1)))"

text \<open>\<open>cloneWebsite(urlStr)\<close>. The \<open>fs.mkdir\<close> of the assets directory, the request for the
  page, discovery and the final write stand outside any \<open>try\<close>.\<close>

definition cloneWebsite :: "env \<Rightarrow> world \<Rightarrow> string \<Rightarrow> result \<times> world" where
  "cloneWebsite e w urlStr =
     (if urlStr = [] then (Returned_String ''No URL provided'', w)
      else
        (case URL_new e urlStr None of
           None \<Rightarrow> (Returned_String (''Invalid URL: '' @ urlStr), w)
         | Some base \<Rightarrow>
             if fs_fails e w Mkdir (job_assetsDir e base) then (Thrown FsError, w)
             else
               let w1 = w\<lparr>requests := requests w @ [urlStr]\<rparr>
               in (case axios_get e (length (requests w)) urlStr of
                     None \<Rightarrow> (Thrown RequestFailed, w1)
                   | Some page \<Rightarrow>
                       (case discover e base (load e page) of
                          Inl err \<Rightarrow> (Thrown err, w1)
                        | Inr assetUrls \<Rightarrow> job_finish e w1 base (load e page) assetUrls))))"

section \<open>A small site, for concrete runs\<close>

text \<open>
  The page \<open>http://h/\<close> and what it refers to. \<open>fx_URL\<close> answers as the URL parser does on
  the references used below: an absolute \<open>http://h/...\<close> URL keeps its path (empty segments
  included), a \<open>data:\<close> URL has the opaque path after the scheme, relative references are
  resolved by the table, anything else (such as \<open>http://[\<close>) is unparseable. A fragment is
  no part of the path and is not sent to the server: \<open>http://h/svg.css#g\<close> has the path
  \<open>/svg.css\<close> and is answered as \<open>http://h/svg.css\<close> is. No file-system call is rejected.
\<close>

definition w0 :: world where
  "w0 = \<lparr>files = (\<lambda>p. None), requests = []\<rparr>"

definition fx_rel :: "((string \<times> string option) \<times> url) list" where
  "fx_rel =
     [((''s.css'', Some ''http://h/''), \<lparr>href = ''http://h/s.css'', pathname = ''/s.css'', hostname = ''h''\<rparr>),
      ((''a.png'', Some ''http://h/''), \<lparr>href = ''http://h/a.png'', pathname = ''/a.png'', hostname = ''h''\<rparr>),
      ((''b.png'', Some ''http://h/''), \<lparr>href = ''http://h/b.png'', pathname = ''/b.png'', hostname = ''h''\<rparr>),
      ((''x.png'', Some ''http://h/''), \<lparr>href = ''http://h/x.png'', pathname = ''/x.png'', hostname = ''h''\<rparr>),
      ((''app.js'', Some ''http://h/''), \<lparr>href = ''http://h/app.js'', pathname = ''/app.js'', hostname = ''h''\<rparr>),
      ((''bg.png'', Some ''http://h/s.css''), \<lparr>href = ''http://h/bg.png'', pathname = ''/bg.png'', hostname = ''h''\<rparr>),
      ((''no.png'', Some ''http://h/s.css''), \<lparr>href = ''http://h/no.png'', pathname = ''/no.png'', hostname = ''h''\<rparr>),
      ((''../../i.png'', Some ''http://h/a//s.css''), \<lparr>href = ''http://h/i.png'', pathname = ''/i.png'', hostname = ''h''\<rparr>),
      ((''../i.png'', Some ''http://h/a//s.css''), \<lparr>href = ''http://h/a/i.png'', pathname = ''/a/i.png'', hostname = ''h''\<rparr>),
      ((''#g'', Some ''http://h/svg.css''), \<lparr>href = ''http://h/svg.css#g'', pathname = ''/svg.css'', hostname = ''h''\<rparr>)]"

definition fx_URL :: "string \<Rightarrow> string option \<Rightarrow> url option" where
  "fx_URL r b =
     (if r = ''http://h/svg.css#g'' then Some \<lparr>href = r, pathname = ''/svg.css'', hostname = ''h''\<rparr>
      else if prefix ''http://h/'' r then Some \<lparr>href = r, pathname = drop 8 r, hostname = ''h''\<rparr>
      else if prefix ''data:'' r then Some \<lparr>href = r, pathname = drop 5 r, hostname = []\<rparr>
      else map_of fx_rel (r, b))"

definition fx_base :: url where
  "fx_base = \<lparr>href = ''http://h/'', pathname = ''/'', hostname = ''h''\<rparr>"

definition fx_doc :: "element list" where
  "fx_doc =
     [\<lparr>tag = ''link'', attrs = [(''rel'', ''stylesheet''), (''href'', ''s.css'')]\<rparr>,
      \<lparr>tag = ''img'', attrs = [(''src'', ''x.png''), (''width'', ''10'')]\<rparr>]"

definition fx_bad_doc :: "element list" where
  "fx_bad_doc =
     [\<lparr>tag = ''img'', attrs = [(''srcset'', ''http://[ 1x, a.png 2x'')]\<rparr>,
      \<lparr>tag = ''object'', attrs = [(''data'', ''a.png'')]\<rparr>]"

definition fx_evil_doc :: "element list" where
  "fx_evil_doc = [\<lparr>tag = ''img'', attrs = [(''src'', ''data:../assets_evil/x;base64,aGk='')]\<rparr>]"

definition fx_html :: "element list \<Rightarrow> string" where
  "fx_html d =
     concat (map (\<lambda>el. ''<'' @ tag el
                      @ concat (map (\<lambda>kv. '' '' @ fst kv @ ''='' @ snd kv) (attrs el)) @ ''>'') d)"

text \<open>A stylesheet with an inline SVG image:
  \<open>a{b:url("data:image/svg+xml,<svg fill='url(#g)'/>")}\<close>.\<close>

definition fx_svg_data :: string where
  "fx_svg_data = ''data:image/svg+xml,<svg fill='' @ [CHR 0x27] @ ''url(#g)'' @ [CHR 0x27] @ ''/>''"

definition fx_svg_css :: string where
  "fx_svg_css = ''a{b:url('' @ [CHR 0x22] @ fx_svg_data @ [CHR 0x22] @ '')}''"

definition fx_net :: "(string \<times> string) list" where
  "fx_net =
     [(''http://h/'', ''page''),
      (''http://h/bad'', ''bad page''),
      (''http://h/evil'', ''evil page''),
      (''http://h/s.css'', ''a{b:url(bg.png)}c{d:url(no.png)}''),
      (''http://h/bg.png'', ''PNG''),
      (''http://h/a.png'', ''PNG''),
      (''http://h/1'', ''one''), (''http://h/3'', ''three''), (''http://h/4'', ''four''),
      (''http://h/5'', ''five''), (''http://h/6'', ''six''),
      (''data:../assets_evil/x;base64,aGk='', ''hi''),
      (''http://h/svg.css'', fx_svg_css),
      (''http://h/svg.css#g'', fx_svg_css),
      (''http://h/dir/'', ''listing'')]"

definition fx_env :: env where
  "fx_env =
     \<lparr>cwd = ''/w'', now = 7, URL_new = fx_URL,
      axios_get = (\<lambda>n u. map_of fx_net u),
      load = (\<lambda>s. if s = ''page'' then fx_doc
                  else if s = ''evil page'' then fx_evil_doc else fx_bad_doc),
      html = fx_html,
      fs_fails = (\<lambda>w op p. False)\<rparr>"

section \<open>The batch downloader\<close>

lemma downloadAsset_url: "outcome_url (fst (downloadAsset e w u d)) = u"
  by (simp add: downloadAsset_def Let_def split: option.splits)

lemma download_batch_append:
  "download_batch e w d (xs @ ys) =
     (case download_batch e w d xs of
        (rs, w1) \<Rightarrow> (case download_batch e w1 d ys of (rs', w2) \<Rightarrow> (rs @ rs', w2)))"
  by (induction xs arbitrary: w) (auto split: prod.splits)

text \<open>Cutting the list into batches changes nothing in the outcomes: the loop downloads
  the URLs from index \<open>i\<close> on, one after the other.\<close>

lemma batch_loop_download_batch:
  "batch_loop e w d urls i = download_batch e w d (drop i urls)"
proof (induction e w d urls i rule: batch_loop.induct)
  case (1 e w d urls i)
  show ?case
  proof (cases "i < length urls")
    case True
    have split: "drop i urls = take BATCH_SIZE (drop i urls) @ drop (i + BATCH_SIZE) urls"
      using append_take_drop_id [of BATCH_SIZE "drop i urls"] by (simp add: add.commute)
    obtain rs w1 where b: "download_batch e w d (take BATCH_SIZE (drop i urls)) = (rs, w1)"
      by force
    have ih: "batch_loop e w1 d urls (i + BATCH_SIZE) = download_batch e w1 d (drop (i + BATCH_SIZE) urls)"
      using "1.IH" [OF True b [symmetric]] .
    have "download_batch e w d (drop i urls) =
            (case download_batch e w1 d (drop (i + BATCH_SIZE) urls) of (rs', w2) \<Rightarrow> (rs @ rs', w2))"
      by (subst split, subst download_batch_append) (simp add: b)
    then show ?thesis
      using True b ih by (subst batch_loop.simps) simp
  next
    case False
    then show ?thesis by (subst batch_loop.simps) simp
  qed
qed

lemma download_batch_urls: "map outcome_url (fst (download_batch e w d urls)) = urls"
proof (induction urls arbitrary: w)
  case Nil
  show ?case by simp
next
  case (Cons u us)
  obtain r w1 where a: "downloadAsset e w u d = (r, w1)" by force
  obtain rs w2 where b: "download_batch e w1 d us = (rs, w2)" by force
  have "outcome_url r = u" using downloadAsset_url [of e w u d] a by simp
  moreover have "map outcome_url rs = us" using Cons.IH [of w1] b by simp
  ultimately show ?case using a b by simp
qed

lemma downloadAsset_requests: "requests (snd (downloadAsset e w u d)) = requests w @ [u]"
  by (simp add: downloadAsset_def fs_writeFile_def Let_def split: option.splits)

lemma download_batch_requests: "requests (snd (download_batch e w d urls)) = requests w @ urls"
proof (induction urls arbitrary: w)
  case Nil
  show ?case by simp
next
  case (Cons u us)
  obtain r w1 where a: "downloadAsset e w u d = (r, w1)" by force
  obtain rs w2 where b: "download_batch e w1 d us = (rs, w2)" by force
  have "requests w1 = requests w @ [u]" using downloadAsset_requests [of e w u d] a by simp
  moreover have "requests w2 = requests w1 @ us" using Cons.IH [of w1] b by simp
  ultimately show ?case using a b by simp
qed

lemma download_batch_length: "length (fst (download_batch e w d urls)) = length urls"
  using arg_cong [OF download_batch_urls [of e w d urls], of length] by simp

lemma download_batch_nth:
  assumes "i < length urls"
  shows "fst (download_batch e w d urls) ! i =
           fst (downloadAsset e (snd (download_batch e w d (take i urls))) (urls ! i) d)"
proof -
  obtain rs w1 where a: "download_batch e w d (take i urls) = (rs, w1)" by force
  obtain r w2 where b: "downloadAsset e w1 (urls ! i) d = (r, w2)" by force
  obtain rs' w3 where c: "download_batch e w2 d (drop (Suc i) urls) = (rs', w3)" by force
  have l: "length rs = i"
    using download_batch_length [of e w d "take i urls"] a assms by simp
  have "urls = take i urls @ (urls ! i # drop (Suc i) urls)"
    using assms by (simp add: id_take_nth_drop)
  then have "download_batch e w d urls = download_batch e w d (take i urls @ (urls ! i # drop (Suc i) urls))"
    by simp
  also have "\<dots> = (rs @ r # rs', w3)"
    by (simp only: download_batch_append a b c download_batch.simps prod.case)
  finally show ?thesis
    using a b l by (simp add: nth_append)
qed

text \<open>A URL whose path ends with a separator is fetched but cannot be stored: the path of
  the write names a directory.\<close>

lemma downloadAsset_trailing_separator:
  "fst (downloadAsset fx_env w ''http://h/dir/'' ''/w/clones/h_7/assets'') =
     Failed ''http://h/dir/'' FsError"
  by (simp add: downloadAsset_def fx_env_def fx_net_def fx_URL_def asset_outPath_def
      safeFilename_def unsafe_char_def path_join_def path_normalize_def normalizeString_def
      path_resolve_def writeFile_fails_def Let_def)

text \<open>
  C4. The batch downloader returns one outcome per input URL, in the order of the input:
  there are as many outcomes as URLs and the URLs of the outcomes are the input list,
  whatever the requests answer. The outcome at each index is the outcome of
  \<open>downloadAsset\<close> on the URL at that index, run in the world that the downloads of the
  URLs before it have left: an earlier failure, in the same batch or in another, takes no
  download away from a later URL. Every URL is requested, once, in the order of the
  input.
\<close>

theorem batch_loop_one_outcome_per_url:
  "length (fst (batch_loop e w assetsDir assetUrls 0)) = length assetUrls
   \<and> map outcome_url (fst (batch_loop e w assetsDir assetUrls 0)) = assetUrls
   \<and> (\<forall>i < length assetUrls.
         fst (batch_loop e w assetsDir assetUrls 0) ! i =
           fst (downloadAsset e (snd (batch_loop e w assetsDir (take i assetUrls) 0))
                  (assetUrls ! i) assetsDir))
   \<and> requests (snd (batch_loop e w assetsDir assetUrls 0)) = requests w @ assetUrls"
  by (simp add: batch_loop_download_batch download_batch_urls download_batch_length
      download_batch_nth download_batch_requests)

definition fx_six :: "string list" where
  "fx_six = [''http://h/1'', ''http://h/2'', ''http://h/3'', ''http://h/4'', ''http://h/5'', ''http://h/6'']"

lemma fx_env_fields:
  "cwd fx_env = ''/w''"
  "now fx_env = 7"
  "URL_new fx_env = fx_URL"
  "axios_get fx_env n u = map_of fx_net u"
  "load fx_env page =
     (if page = ''page'' then fx_doc else if page = ''evil page'' then fx_evil_doc else fx_bad_doc)"
  "html fx_env = fx_html"
  "fs_fails fx_env w op p = False"
  by (simp_all add: fx_env_def)

lemmas fx_run =
  downloadAsset_def fx_env_fields fx_net_def w0_def fx_URL_def fx_rel_def asset_outPath_def
  safeFilename_def unsafe_char_def path_join_def path_normalize_def normalizeString_def
  path_resolve_def fs_writeFile_def fs_readFile_def writeFile_fails_def Let_def

lemma fx_six_downloads:
  "fst (downloadAsset fx_env w ''http://h/1'' ''/w/clones/h_7/assets'') = Ok ''/w/clones/h_7/assets/1'' ''one'' ''http://h/1''"
  "fst (downloadAsset fx_env w ''http://h/2'' ''/w/clones/h_7/assets'') = Failed ''http://h/2'' RequestFailed"
  "fst (downloadAsset fx_env w ''http://h/3'' ''/w/clones/h_7/assets'') = Ok ''/w/clones/h_7/assets/3'' ''three'' ''http://h/3''"
  "fst (downloadAsset fx_env w ''http://h/4'' ''/w/clones/h_7/assets'') = Ok ''/w/clones/h_7/assets/4'' ''four'' ''http://h/4''"
  "fst (downloadAsset fx_env w ''http://h/5'' ''/w/clones/h_7/assets'') = Ok ''/w/clones/h_7/assets/5'' ''five'' ''http://h/5''"
  "fst (downloadAsset fx_env w ''http://h/6'' ''/w/clones/h_7/assets'') = Ok ''/w/clones/h_7/assets/6'' ''six'' ''http://h/6''"
  by (simp_all add: downloadAsset_def fx_env_fields fx_net_def fx_URL_def asset_outPath_def
      safeFilename_def unsafe_char_def path_join_def path_normalize_def normalizeString_def
      path_resolve_def writeFile_fails_def Let_def)

theorem batch_loop_one_outcome_per_url_witness:
  "length (fst (batch_loop fx_env w0 ''/w/clones/h_7/assets'' fx_six 0)) = 6
   \<and> map outcome_url (fst (batch_loop fx_env w0 ''/w/clones/h_7/assets'' fx_six 0)) = fx_six
   \<and> fst (batch_loop fx_env w0 ''/w/clones/h_7/assets'' fx_six 0) =
       [Ok ''/w/clones/h_7/assets/1'' ''one'' ''http://h/1'',
        Failed ''http://h/2'' RequestFailed,
        Ok ''/w/clones/h_7/assets/3'' ''three'' ''http://h/3'',
        Ok ''/w/clones/h_7/assets/4'' ''four'' ''http://h/4'',
        Ok ''/w/clones/h_7/assets/5'' ''five'' ''http://h/5'',
        Ok ''/w/clones/h_7/assets/6'' ''six'' ''http://h/6'']
   \<and> requests (snd (batch_loop fx_env w0 ''/w/clones/h_7/assets'' fx_six 0)) = fx_six"
proof -
  let ?rs = "fst (batch_loop fx_env w0 ''/w/clones/h_7/assets'' fx_six 0)"
  note t = batch_loop_one_outcome_per_url [of fx_env w0 "''/w/clones/h_7/assets''" fx_six]
  have l: "length fx_six = 6"
    by (simp add: fx_six_def)
  have n: "length ?rs = 6"
    using t l by simp
  have i: "?rs ! i = fst (downloadAsset fx_env
              (snd (batch_loop fx_env w0 ''/w/clones/h_7/assets'' (take i fx_six) 0))
              (fx_six ! i) ''/w/clones/h_7/assets'')" if "i < 6" for i
    using t l that by simp
  obtain a b c d e f where "?rs = [a, b, c, d, e, f]"
    using n by (auto simp: eval_nat_numeral length_Suc_conv)
  then have e: "?rs = [?rs ! 0, ?rs ! 1, ?rs ! 2, ?rs ! 3, ?rs ! 4, ?rs ! 5]"
    by simp
  have "?rs ! 0 = Ok ''/w/clones/h_7/assets/1'' ''one'' ''http://h/1''"
    "?rs ! 1 = Failed ''http://h/2'' RequestFailed"
    "?rs ! 2 = Ok ''/w/clones/h_7/assets/3'' ''three'' ''http://h/3''"
    "?rs ! 3 = Ok ''/w/clones/h_7/assets/4'' ''four'' ''http://h/4''"
    "?rs ! 4 = Ok ''/w/clones/h_7/assets/5'' ''five'' ''http://h/5''"
    "?rs ! 5 = Ok ''/w/clones/h_7/assets/6'' ''six'' ''http://h/6''"
    using i [of 0] i [of 1] i [of 2] i [of 3] i [of 4] i [of 5]
    by (simp_all add: fx_six_def fx_six_downloads)
  then have "?rs =
       [Ok ''/w/clones/h_7/assets/1'' ''one'' ''http://h/1'',
        Failed ''http://h/2'' RequestFailed,
        Ok ''/w/clones/h_7/assets/3'' ''three'' ''http://h/3'',
        Ok ''/w/clones/h_7/assets/4'' ''four'' ''http://h/4'',
        Ok ''/w/clones/h_7/assets/5'' ''five'' ''http://h/5'',
        Ok ''/w/clones/h_7/assets/6'' ''six'' ''http://h/6'']"
    using e by simp
  moreover have "requests (snd (batch_loop fx_env w0 ''/w/clones/h_7/assets'' fx_six 0)) = fx_six"
    using t by (simp add: w0_def)
  ultimately show ?thesis
    using t n by simp
qed

section \<open>\<open>data:\<close> URIs in stylesheets\<close>

lemma css_refs_append: "css_refs (xs @ ys) = css_refs xs @ css_refs ys"
  by (induction xs rule: css_refs.induct) auto

lemma css_replace_append: "css_replace f (xs @ ys) = css_replace f xs @ css_replace f ys"
  by (induction f xs rule: css_replace.induct) auto

lemma css_fetch_loop_append:
  "css_fetch_loop e outDir assetsDir u (xs @ ys) mw =
     css_fetch_loop e outDir assetsDir u ys (css_fetch_loop e outDir assetsDir u xs mw)"
  by (induction xs arbitrary: mw) auto

text \<open>
  What the two guards \<open>/^data:/.test(assetRef)\<close> ensure. Take a match of the pattern in a
  stylesheet whose captured reference starts with \<open>data:\<close>. The fetch step leaves the map
  and the world as they are (no request is sent, no entry is added); the whole fetch loop
  runs exactly as on the stylesheet's other references; and in the rewritten text the
  match stands unchanged between the rewritten parts before and after it. This is about
  the matches of the pattern, which ends a reference at the first quote or closing
  parenthesis, not about the \<open>url(...)\<close> occurrences of the stylesheet.
\<close>

lemma css_data_uri_untouched:
  assumes "is_data assetRef"
    and "css_scan cssContentRaw = pre @ UrlMatch match assetRef # post"
  shows "css_fetch_ref e outDir assetsDir originalUrl mw assetRef = mw
    \<and> css_fetch_loop e outDir assetsDir originalUrl (css_refs (css_scan cssContentRaw)) mw =
        css_fetch_loop e outDir assetsDir originalUrl (css_refs pre @ css_refs post) mw
    \<and> css_rewrite e outDir originalUrl cssFullPath m cssContentRaw =
        css_replace (css_replacer e outDir originalUrl cssFullPath m) pre @ match
          @ css_replace (css_replacer e outDir originalUrl cssFullPath m) post"
proof -
  have skip: "css_fetch_ref e outDir assetsDir originalUrl mw' assetRef = mw'" for mw'
    using assms(1) by (simp add: css_fetch_ref_def)
  have keep: "css_replacer e outDir originalUrl cssFullPath m match assetRef = match"
    using assms(1) by (simp add: css_replacer_def)
  have "css_fetch_loop e outDir assetsDir originalUrl (css_refs (css_scan cssContentRaw)) mw =
        css_fetch_loop e outDir assetsDir originalUrl (css_refs pre @ css_refs post) mw"
    by (simp add: assms(2) css_refs_append css_fetch_loop_append skip)
  moreover have "css_rewrite e outDir originalUrl cssFullPath m cssContentRaw =
        css_replace (css_replacer e outDir originalUrl cssFullPath m) pre @ match
          @ css_replace (css_replacer e outDir originalUrl cssFullPath m) post"
    by (simp add: css_rewrite_def assms(2) css_replace_append keep)
  ultimately show ?thesis using skip by blast
qed

lemmas css_run = css_match_at_def ref_char_def is_quote_def is_data_def

lemma css_data_uri_untouched_example:
  "is_data ''data:abc''
   \<and> css_scan ''a{b:url(data:abc)}'' =
       map Lit ''a{b:'' @ UrlMatch ''url(data:abc)'' ''data:abc'' # map Lit ''}''
   \<and> css_fetch_loop fx_env ''/w/clones/h_7'' ''/w/clones/h_7/assets'' ''http://h/s.css''
        (css_refs (css_scan ''a{b:url(data:abc)}'')) ([], w0) = ([], w0)
   \<and> css_rewrite fx_env ''/w/clones/h_7'' ''http://h/s.css'' ''/w/clones/h_7/assets/s.css'' []
        ''a{b:url(data:abc)}'' = ''a{b:url(data:abc)}''"
proof -
  have d: "is_data ''data:abc''"
    by (simp add: is_data_def)
  have s: "css_scan ''a{b:url(data:abc)}'' =
             map Lit ''a{b:'' @ UrlMatch ''url(data:abc)'' ''data:abc'' # map Lit ''}''"
    by (simp add: css_run)
  show ?thesis
    using css_data_uri_untouched [OF d s, of fx_env "''/w/clones/h_7''" "''/w/clones/h_7/assets''"
        "''http://h/s.css''" "([], w0)" "''/w/clones/h_7/assets/s.css''" "[]"] d s
    by simp
qed

section \<open>Rewriting \<open>srcset\<close>\<close>













section \<open>Objects and attributes\<close>

lemma obj_get_obj_set: "obj_get (obj_set m k v) k' = (if k' = k then Some v else obj_get m k')"
  by (induction m) (auto simp: obj_get_def)

lemma attr_get_attr_set:
  "attr_get (attr_set el a v) a' = (if a' = a then Some v else attr_get el a')"
  using obj_get_obj_set [of "attrs el" a v a'] by (simp add: attr_get_def attr_set_def obj_get_def)

lemmas html_run = mapAttr_def matches_def mapAttr_el_def attr_get_def attr_set_def assetSelectors_def
  obj_get_def placeholder_def fx_env_fields fx_URL_def fx_rel_def fx_base_def

section \<open>Rewriting stylesheets\<close>

text \<open>The text the rewriter writes for a local path: \<open>url('path')\<close>.\<close>

definition quoted_url :: "string \<Rightarrow> string" where
  "quoted_url p = ''url('' @ [CHR 0x27] @ p @ [CHR 0x27] @ '')''"

text \<open>
  An occurrence is settled when the rewriter has nothing to change in it: its reference
  is a \<open>data:\<close> URI, or does not resolve, or resolves to a URL with no (non-empty) entry in
  the map, or the occurrence is already written \<open>url('path')\<close> with the relative path from
  the stylesheet's directory to the mapped local file.
\<close>

definition settled ::
  "env \<Rightarrow> string \<Rightarrow> string \<Rightarrow> string \<Rightarrow> (string \<times> string) list \<Rightarrow> css_token \<Rightarrow> bool" where
  "settled e outDir originalUrl cssFullPath m tok =
     (case tok of
        Lit c \<Rightarrow> True
      | UrlMatch match assetRef \<Rightarrow>
          is_data assetRef \<or>
          (case URL_new e assetRef (Some originalUrl) of
             None \<Rightarrow> True
           | Some a \<Rightarrow>
               (case obj_get m (href a) of
                  None \<Rightarrow> True
                | Some p \<Rightarrow>
                    p = [] \<or>
                    match = quoted_url (path_relative (cwd e) (path_dirname cssFullPath)
                                          (path_join [outDir, p])))))"

lemma eat_quote_append: "eat_quote s = (q, t) \<Longrightarrow> s = q @ t"
  by (cases s) (auto split: if_splits)

lemma css_match_at_text:
  assumes "css_match_at s = Some (m, r, rest)"
  shows "s = m @ rest"
proof -
  obtain q1 s2 where a: "eat_quote (drop 4 s) = (q1, s2)" by force
  obtain q2 s4 where b: "eat_quote (dropWhile ref_char s2) = (q2, s4)" by force
  from assms have p: "prefix ''url('' s"
    by (auto simp: css_match_at_def split: if_splits)
  from assms a b have s4: "s4 = CHR '')'' # rest"
    and m: "m = ''url('' @ q1 @ takeWhile ref_char s2 @ q2 @ '')''"
    by (auto simp: css_match_at_def split: if_splits list.splits)
  from p obtain t where t: "s = ''url('' @ t" by (auto simp: prefix_def)
  then have "drop 4 s = t" by simp
  then have "t = q1 @ s2" using eat_quote_append [OF a] by simp
  moreover have "s2 = takeWhile ref_char s2 @ dropWhile ref_char s2" by simp
  moreover have "dropWhile ref_char s2 = q2 @ s4" using eat_quote_append [OF b] .
  ultimately have "t = q1 @ takeWhile ref_char s2 @ q2 @ s4" by simp
  then show ?thesis using t m s4 by simp
qed

text \<open>Cutting a text into matches and characters loses nothing.\<close>

lemma css_scan_text: "css_replace (\<lambda>match assetRef. match) (css_scan s) = s"
proof (induction s rule: css_scan.induct)
  case 1
  show ?case by simp
next
  case (2 c cs)
  show ?case
  proof (cases "css_match_at (c # cs)")
    case None
    then show ?thesis using 2 by simp
  next
    case (Some t)
    obtain m r rest where t: "t = (m, r, rest)" by (cases t) auto
    have tx: "c # cs = m @ rest" using css_match_at_text Some t by simp
    have sc: "css_scan (c # cs) = UrlMatch m r # css_scan rest" using Some t by simp
    have ih: "css_replace (\<lambda>match assetRef. match) (css_scan rest) = rest"
      using 2 Some t by auto
    have "css_replace (\<lambda>match assetRef. match) (css_scan (c # cs)) =
            m @ css_replace (\<lambda>match assetRef. match) (css_scan rest)"
      by (simp only: sc css_replace.simps)
    also have "\<dots> = m @ rest"
      by (simp only: ih)
    also have "\<dots> = c # cs"
      by (rule tx [symmetric])
    finally show ?thesis .
  qed
qed


lemma css_replace_settled:
  assumes "list_all (settled e outDir originalUrl cssFullPath m) toks"
  shows "css_replace (css_replacer e outDir originalUrl cssFullPath m) toks =
         css_replace (\<lambda>match assetRef. match) toks"
  using assms
proof (induction toks)
  case Nil
  show ?case by simp
next
  case (Cons tok toks)
  show ?case
  proof (cases tok)
    case (Lit c)
    then show ?thesis using Cons by simp
  next
    case (UrlMatch match assetRef)
    have "settled e outDir originalUrl cssFullPath m (UrlMatch match assetRef)"
      using Cons.prems UrlMatch by simp
    then have "css_replacer e outDir originalUrl cssFullPath m match assetRef = match"
      by (auto simp: settled_def css_replacer_def quoted_url_def split: option.splits)
    then show ?thesis using Cons UrlMatch by simp
  qed
qed

text \<open>
  C7, as the code has it. The write-back is change-gated: the world changes only when the
  rewritten text differs from the text read. A stylesheet all of whose occurrences are
  settled is rewritten to itself, and is not written back.
\<close>

theorem css_rewrite_change_gated:
  "(css_write_back e w cssFullPath cssContentRaw cssContent \<noteq> w \<longrightarrow> cssContent \<noteq> cssContentRaw)
   \<and> (list_all (settled e outDir originalUrl cssFullPath m) (css_scan cssContentRaw) \<longrightarrow>
        css_rewrite e outDir originalUrl cssFullPath m cssContentRaw = cssContentRaw
        \<and> css_write_back e w cssFullPath cssContentRaw
             (css_rewrite e outDir originalUrl cssFullPath m cssContentRaw) = w)"
proof -
  have "css_rewrite e outDir originalUrl cssFullPath m cssContentRaw = cssContentRaw"
    if "list_all (settled e outDir originalUrl cssFullPath m) (css_scan cssContentRaw)"
    using css_replace_settled [OF that] by (simp add: css_rewrite_def css_scan_text)
  then show ?thesis
    by (auto simp: css_write_back_def)
qed

definition fx_map :: "(string \<times> string) list" where
  "fx_map =
     [(''http://h/a//s.css'', ''assets/a/s.css''),
      (''http://h/s.css'', ''assets/s.css''),
      (''http://h/bg.png'', ''assets/bg.png''),
      (''http://h/a/i.png'', ''assets/a/i.png''),
      (''http://h/i.png'', ''assets/i.png'')]"

lemmas rel_run = path_relative_def path_dirname_def segments_def

text \<open>
  C7 as stated fails on the code. The stylesheet \<open>http://h/a//s.css\<close> is stored as
  \<open>assets/a/s.css\<close>; the images \<open>http://h/i.png\<close> and \<open>http://h/a/i.png\<close> are both in the map.
  A first run rewrites \<open>url(../../i.png)\<close> to \<open>url('../i.png')\<close>, which points at the local file
  \<open>assets/i.png\<close>. Run on its own output, the rewrite step resolves \<open>../i.png\<close> against the
  stylesheet's URL to \<open>http://h/a/i.png\<close> and writes \<open>url('i.png')\<close>: the text changes again.
  Also, a reference that already points at its local file but is written without quotes
  (\<open>url(bg.png)\<close> in \<open>assets/s.css\<close>, beside \<open>assets/bg.png\<close>) is rewritten with quotes.
\<close>

theorem css_rewrite_not_idempotent_counterexample:
  "css_rewrite fx_env ''/w/clones/h_7'' ''http://h/a//s.css'' ''/w/clones/h_7/assets/a/s.css'' fx_map
      ''a{b:url(../../i.png)}'' = ''a{b:'' @ quoted_url ''../i.png'' @ ''}''
   \<and> css_rewrite fx_env ''/w/clones/h_7'' ''http://h/a//s.css'' ''/w/clones/h_7/assets/a/s.css'' fx_map
      (''a{b:'' @ quoted_url ''../i.png'' @ ''}'') = ''a{b:'' @ quoted_url ''i.png'' @ ''}''
   \<and> css_rewrite fx_env ''/w/clones/h_7'' ''http://h/s.css'' ''/w/clones/h_7/assets/s.css'' fx_map
      ''a{b:url(bg.png)}'' \<noteq> ''a{b:url(bg.png)}''"
  by (simp add: css_rewrite_def css_replacer_def css_run quoted_url_def fx_map_def obj_get_def rel_run fx_run)

theorem css_rewrite_change_gated_witness:
  "list_all (settled fx_env ''/w/clones/h_7'' ''http://h/s.css'' ''/w/clones/h_7/assets/s.css'' fx_map)
      (css_scan (''a{b:'' @ quoted_url ''bg.png'' @ ''}c{d:url(data:abc)}''))
   \<and> css_rewrite fx_env ''/w/clones/h_7'' ''http://h/s.css'' ''/w/clones/h_7/assets/s.css'' fx_map
        (''a{b:'' @ quoted_url ''bg.png'' @ ''}c{d:url(data:abc)}'')
       = ''a{b:'' @ quoted_url ''bg.png'' @ ''}c{d:url(data:abc)}''
   \<and> css_write_back fx_env w0 ''/w/clones/h_7/assets/s.css''
        (''a{b:'' @ quoted_url ''bg.png'' @ ''}c{d:url(data:abc)}'')
        (css_rewrite fx_env ''/w/clones/h_7'' ''http://h/s.css'' ''/w/clones/h_7/assets/s.css'' fx_map
           (''a{b:'' @ quoted_url ''bg.png'' @ ''}c{d:url(data:abc)}'')) = w0"
proof -
  have s: "list_all (settled fx_env ''/w/clones/h_7'' ''http://h/s.css'' ''/w/clones/h_7/assets/s.css'' fx_map)
      (css_scan (''a{b:'' @ quoted_url ''bg.png'' @ ''}c{d:url(data:abc)}''))"
    by (simp add: settled_def css_run quoted_url_def fx_map_def obj_get_def rel_run fx_run)
  show ?thesis
    using css_rewrite_change_gated [of fx_env w0 "''/w/clones/h_7/assets/s.css''"
        "''a{b:'' @ quoted_url ''bg.png'' @ ''}c{d:url(data:abc)}''" _
        "''/w/clones/h_7''" "''http://h/s.css''" fx_map] s
    by blast
qed

section \<open>The URL-to-local map\<close>

text \<open>The local path the job stores for a URL: the path \<open>downloadAsset\<close> writes to,
  relative to the output directory. It depends on the URL and the directories only.\<close>

definition local_path :: "env \<Rightarrow> string \<Rightarrow> string \<Rightarrow> string \<Rightarrow> string option" where
  "local_path e outDir assetsDir k =
     (case URL_new e k None of
        None \<Rightarrow> None
      | Some u \<Rightarrow> Some (path_relative (cwd e) outDir (asset_outPath u assetsDir)))"

text \<open>The invariant of the map: every entry holds the local path of its URL.\<close>

definition consistent :: "env \<Rightarrow> string \<Rightarrow> string \<Rightarrow> (string \<times> string) list \<Rightarrow> bool" where
  "consistent e outDir assetsDir m =
     list_all (\<lambda>kv. local_path e outDir assetsDir (fst kv) = Some (snd kv)) m"

text \<open>A step from \<open>m\<close> to \<open>m'\<close> keeps the invariant and every entry of \<open>m\<close>.\<close>

definition grows :: "env \<Rightarrow> string \<Rightarrow> string \<Rightarrow> (string \<times> string) list \<Rightarrow> (string \<times> string) list \<Rightarrow> bool" where
  "grows e outDir assetsDir m m' =
     (consistent e outDir assetsDir m \<longrightarrow>
        consistent e outDir assetsDir m' \<and> (\<forall>k p. obj_get m k = Some p \<longrightarrow> obj_get m' k = Some p))"

lemma grows_refl: "grows e outDir assetsDir m m"
  by (simp add: grows_def)

lemma grows_trans:
  "grows e outDir assetsDir m m' \<Longrightarrow> grows e outDir assetsDir m' m'' \<Longrightarrow> grows e outDir assetsDir m m''"
  by (auto simp: grows_def)

lemma consistent_get:
  "consistent e outDir assetsDir m \<Longrightarrow> obj_get m k = Some p \<Longrightarrow> local_path e outDir assetsDir k = Some p"
  by (auto simp: consistent_def obj_get_def list_all_iff dest!: map_of_SomeD)

lemma consistent_obj_set:
  "consistent e outDir assetsDir m \<Longrightarrow> local_path e outDir assetsDir k = Some v \<Longrightarrow>
     consistent e outDir assetsDir (obj_set m k v)"
  by (induction m) (auto simp: consistent_def)

lemma grows_obj_set:
  assumes "local_path e outDir assetsDir k = Some v"
  shows "grows e outDir assetsDir m (obj_set m k v)"
  unfolding grows_def
proof (intro impI conjI allI)
  assume c: "consistent e outDir assetsDir m"
  show "consistent e outDir assetsDir (obj_set m k v)"
    using consistent_obj_set [OF c assms] .
  fix k' p
  assume g: "obj_get m k' = Some p"
  show "obj_get (obj_set m k v) k' = Some p"
  proof (cases "k' = k")
    case True
    then have "p = v" using consistent_get [OF c g] assms by simp
    then show ?thesis using True by (simp add: obj_get_obj_set)
  next
    case False
    then show ?thesis using g by (simp add: obj_get_obj_set)
  qed
qed

lemma downloadAsset_Ok:
  assumes "downloadAsset e w u d = (Ok outPath content u', w')"
  shows "u' = u \<and> (\<exists>pu. URL_new e u None = Some pu \<and> outPath = asset_outPath pu d)"
  using assms by (auto simp: downloadAsset_def Let_def split: option.splits if_splits)

lemma downloadAsset_local_path:
  assumes "downloadAsset e w u assetsDir = (Ok outPath content u', w')"
  shows "local_path e outDir assetsDir u = Some (path_relative (cwd e) outDir outPath)"
  using downloadAsset_Ok [OF assms] by (auto simp: local_path_def)

lemma css_fetch_ref_grows:
  "grows e outDir assetsDir (fst mw) (fst (css_fetch_ref e outDir assetsDir originalUrl mw r))"
proof -
  have "grows e outDir assetsDir (fst mw) (fst (case downloadAsset e (snd mw) k assetsDir of
          (Ok outPath content u, w1) \<Rightarrow> (obj_set (fst mw) k (path_relative (cwd e) outDir outPath), w1)
        | (Failed u err, w1) \<Rightarrow> (fst mw, w1)))" for k
  proof (cases "downloadAsset e (snd mw) k assetsDir")
    case (Pair r' w1)
    show ?thesis
    proof (cases r')
      case (Ok outPath content u)
      then show ?thesis
        using Pair downloadAsset_local_path [of e "snd mw" k assetsDir outPath content u w1 outDir]
        by (simp add: grows_obj_set)
    next
      case (Failed u err)
      then show ?thesis using Pair by (simp add: grows_refl)
    qed
  qed
  then show ?thesis
    by (simp add: css_fetch_ref_def grows_refl split: option.splits)
qed

lemma css_fetch_loop_grows:
  "grows e outDir assetsDir (fst mw) (fst (css_fetch_loop e outDir assetsDir originalUrl rs mw))"
proof (induction rs arbitrary: mw)
  case Nil
  show ?case by (simp add: grows_refl)
next
  case (Cons r rs)
  show ?case
    using grows_trans [OF css_fetch_ref_grows [of e outDir assetsDir mw originalUrl r]
        Cons.IH [of "css_fetch_ref e outDir assetsDir originalUrl mw r"]]
    by simp
qed

lemma css_process_grows:
  "grows e outDir assetsDir (fst mw) (fst (css_process e outDir assetsDir mw entry))"
proof -
  have "fst (css_process e outDir assetsDir mw entry) = fst mw \<or>
        (\<exists>rs. fst (css_process e outDir assetsDir mw entry) =
                fst (css_fetch_loop e outDir assetsDir (fst entry) rs mw))"
    by (auto simp: css_process_def Let_def split: option.splits prod.splits) (metis fst_conv)
  then show ?thesis
    using css_fetch_loop_grows [of e outDir assetsDir mw "fst entry"] by (auto simp: grows_refl)
qed

lemma css_phase_grows:
  "grows e outDir assetsDir (fst mw) (fst (css_phase e outDir assetsDir entries mw))"
proof (induction entries arbitrary: mw)
  case Nil
  show ?case by (simp add: grows_refl)
next
  case (Cons entry entries)
  show ?case
    using grows_trans [OF css_process_grows [of e outDir assetsDir mw entry]
        Cons.IH [of "css_process e outDir assetsDir mw entry"]]
    by simp
qed

lemma css_phase_append:
  "css_phase e outDir assetsDir (es1 @ es2) mw =
     css_phase e outDir assetsDir es2 (css_phase e outDir assetsDir es1 mw)"
  by (induction es1 arbitrary: mw) auto

text \<open>An outcome of a download into \<open>assetsDir\<close>.\<close>

definition downloaded_into :: "env \<Rightarrow> string \<Rightarrow> outcome \<Rightarrow> bool" where
  "downloaded_into e assetsDir r =
     (case r of
        Ok outPath content u \<Rightarrow>
          (case URL_new e u None of None \<Rightarrow> False | Some pu \<Rightarrow> outPath = asset_outPath pu assetsDir)
      | Failed u err \<Rightarrow> True)"

lemma download_batch_into:
  "list_all (downloaded_into e assetsDir) (fst (download_batch e w assetsDir urls))"
proof (induction urls arbitrary: w)
  case Nil
  show ?case by simp
next
  case (Cons u us)
  obtain r w1 where a: "downloadAsset e w u assetsDir = (r, w1)" by force
  obtain rs w2 where b: "download_batch e w1 assetsDir us = (rs, w2)" by force
  have "downloaded_into e assetsDir r"
  proof (cases r)
    case (Ok outPath content u')
    then show ?thesis using downloadAsset_Ok [of e w u assetsDir outPath content u' w1] a
      by (auto simp: downloaded_into_def)
  next
    case (Failed u' err)
    then show ?thesis by (simp add: downloaded_into_def)
  qed
  moreover have "list_all (downloaded_into e assetsDir) rs" using Cons.IH [of w1] b by simp
  ultimately show ?case using a b by simp
qed

lemma process_results_grows:
  assumes "list_all (downloaded_into e assetsDir) rs"
  shows "grows e outDir assetsDir m (process_results e outDir rs m)"
  using assms
proof (induction rs arbitrary: m)
  case Nil
  show ?case by (simp add: grows_refl)
next
  case (Cons r rs)
  show ?case
  proof (cases r)
    case (Ok outPath content u)
    then have "local_path e outDir assetsDir u = Some (path_relative (cwd e) outDir outPath)"
      using Cons.prems by (auto simp: downloaded_into_def local_path_def split: option.splits)
    then have "grows e outDir assetsDir m (obj_set m u (path_relative (cwd e) outDir outPath))"
      by (rule grows_obj_set)
    moreover have "grows e outDir assetsDir (obj_set m u (path_relative (cwd e) outDir outPath))
        (process_results e outDir rs (obj_set m u (path_relative (cwd e) outDir outPath)))"
      using Cons.IH Cons.prems by simp
    ultimately show ?thesis using Ok by (auto intro: grows_trans)
  next
    case (Failed u err)
    then show ?thesis using Cons.IH Cons.prems by simp
  qed
qed

lemma process_results_append:
  "process_results e outDir (rs1 @ rs2) m = process_results e outDir rs2 (process_results e outDir rs1 m)"
  by (induction e outDir rs1 m rule: process_results.induct) auto

lemma consistent_Nil: "consistent e outDir assetsDir []"
  by (simp add: consistent_def)


text \<open>
  C3. Within one job an entry of the URL-to-local map, once set, stays as it is. Take any
  point of result processing (the outcomes \<open>rs1\<close> processed, \<open>rs2\<close> to come) and any point
  of CSS processing (the stylesheets \<open>es1\<close> processed, \<open>es2\<close> to come): an entry present
  after \<open>rs1\<close> is in the initial map with the same path, an entry of the initial map is
  in the map after \<open>es1\<close> with the same path, and an entry of the map after \<open>es1\<close> (the map
  the rewriting of the last stylesheet of \<open>es1\<close> reads) is in the final map, which HTML
  rewriting reads, with the same path. Each single step of the CSS fetch loop keeps the
  entries as well (\<open>css_fetch_ref_grows\<close>).
\<close>

theorem urlToLocal_never_reassigned:
  assumes "fst (job_results e w base assetUrls) = rs1 @ rs2"
    and "job_initial_map e w base assetUrls = es1 @ es2"
  shows "(obj_get (process_results e (job_outDir e base) rs1 []) k = Some p \<longrightarrow>
            obj_get (job_initial_map e w base assetUrls) k = Some p)
    \<and> (obj_get (job_initial_map e w base assetUrls) k = Some p \<longrightarrow>
            obj_get (fst (job_css_after e w base assetUrls es1)) k = Some p)
    \<and> (obj_get (fst (job_css_after e w base assetUrls es1)) k = Some p \<longrightarrow>
            obj_get (fst (job_css e w base assetUrls)) k = Some p)"
proof -
  let ?outDir = "job_outDir e base"
  let ?assetsDir = "job_assetsDir e base"
  let ?m0 = "job_initial_map e w base assetUrls"
  let ?w0 = "snd (job_results e w base assetUrls)"
  have into: "list_all (downloaded_into e ?assetsDir) (rs1 @ rs2)"
    using download_batch_into [of e ?assetsDir w "drop 0 assetUrls"] assms(1)
    by (simp add: job_results_def batch_loop_download_batch)
  have c1: "consistent e ?outDir ?assetsDir (process_results e ?outDir rs1 [])"
    using process_results_grows [of e ?assetsDir rs1 ?outDir "[]"] into
    by (simp add: grows_def consistent_Nil)
  have m0: "?m0 = process_results e ?outDir rs2 (process_results e ?outDir rs1 [])"
    by (simp add: job_initial_map_def assms(1) process_results_append)
  have g1: "grows e ?outDir ?assetsDir (process_results e ?outDir rs1 []) ?m0"
    using process_results_grows [of e ?assetsDir rs2 ?outDir "process_results e ?outDir rs1 []"] into
    by (simp add: m0 [symmetric])
  have c2: "consistent e ?outDir ?assetsDir ?m0"
    using g1 c1 by (simp add: grows_def)
  have g2: "grows e ?outDir ?assetsDir ?m0 (fst (job_css_after e w base assetUrls es1))"
    using css_phase_grows [of e ?outDir ?assetsDir "(?m0, ?w0)" es1]
    by (simp add: job_css_after_def)
  have c3: "consistent e ?outDir ?assetsDir (fst (job_css_after e w base assetUrls es1))"
    using g2 c2 by (simp add: grows_def)
  have "job_css e w base assetUrls =
          css_phase e ?outDir ?assetsDir es2 (job_css_after e w base assetUrls es1)"
    by (simp add: job_css_def job_css_after_def assms(2) css_phase_append)
  then have g3: "grows e ?outDir ?assetsDir (fst (job_css_after e w base assetUrls es1))
                   (fst (job_css e w base assetUrls))"
    using css_phase_grows [of e ?outDir ?assetsDir "job_css_after e w base assetUrls es1" es2]
    by simp
  show ?thesis
    using g1 c1 g2 c2 g3 c3 by (simp add: grows_def)
qed

text \<open>The run on the small site, after the page has been fetched.\<close>

definition w1 :: world where
  "w1 = \<lparr>files = (\<lambda>p. None), requests = [''http://h/'']\<rparr>"

definition fx_assets :: "string list" where
  "fx_assets = [''http://h/s.css'', ''http://h/x.png'']"

lemma show_nat_7: "show_nat 7 = ''7''"
  by code_simp

lemma fx_dirs:
  "job_outDir fx_env fx_base = ''/w/clones/h_7''"
  "job_assetsDir fx_env fx_base = ''/w/clones/h_7/assets''"
  by (simp_all add: job_assetsDir_def job_outDir_def fx_base_def show_nat_7 fx_run)

lemma fx_job_results:
  "job_results fx_env w1 fx_base fx_assets =
     ([Ok ''/w/clones/h_7/assets/s.css'' ''a{b:url(bg.png)}c{d:url(no.png)}'' ''http://h/s.css'',
       Failed ''http://h/x.png'' RequestFailed],
      \<lparr>files = (\<lambda>p. None)(''/w/clones/h_7/assets/s.css'' := Some ''a{b:url(bg.png)}c{d:url(no.png)}''),
       requests = [''http://h/'', ''http://h/s.css'', ''http://h/x.png'']\<rparr>)"
  by (simp add: job_results_def fx_dirs batch_loop_download_batch fx_assets_def w1_def fx_run)

lemma fx_initial_map:
  "job_initial_map fx_env w1 fx_base fx_assets = [(''http://h/s.css'', ''assets/s.css'')]"
  by (simp add: job_initial_map_def fx_job_results fx_dirs rel_run fx_run)

lemma fx_css_map:
  "fst (job_css fx_env w1 fx_base fx_assets) =
     [(''http://h/s.css'', ''assets/s.css''), (''http://h/bg.png'', ''assets/bg.png'')]"
  by (simp add: job_css_def job_css_after_def fx_initial_map fx_job_results fx_dirs
      css_process_def css_fetch_ref_def css_run toLowerCase_def to_lower_char_def suffix_def
      obj_get_def rel_run fx_run)


theorem urlToLocal_never_reassigned_witness:
  "obj_get (process_results fx_env (job_outDir fx_env fx_base)
       [Ok ''/w/clones/h_7/assets/s.css'' ''a{b:url(bg.png)}c{d:url(no.png)}'' ''http://h/s.css''] [])
     ''http://h/s.css'' = Some ''assets/s.css''
   \<and> obj_get (job_initial_map fx_env w1 fx_base fx_assets) ''http://h/s.css'' = Some ''assets/s.css''
   \<and> obj_get (fst (job_css_after fx_env w1 fx_base fx_assets [(''http://h/s.css'', ''assets/s.css'')]))
       ''http://h/s.css'' = Some ''assets/s.css''
   \<and> obj_get (fst (job_css fx_env w1 fx_base fx_assets)) ''http://h/s.css'' = Some ''assets/s.css''
   \<and> obj_get (fst (job_css fx_env w1 fx_base fx_assets)) ''http://h/bg.png'' = Some ''assets/bg.png''"
proof -
  have a: "fst (job_results fx_env w1 fx_base fx_assets) =
      [Ok ''/w/clones/h_7/assets/s.css'' ''a{b:url(bg.png)}c{d:url(no.png)}'' ''http://h/s.css'']
      @ [Failed ''http://h/x.png'' RequestFailed]"
    by (simp add: fx_job_results)
  have b: "job_initial_map fx_env w1 fx_base fx_assets = [(''http://h/s.css'', ''assets/s.css'')] @ []"
    by (simp add: fx_initial_map)
  have c: "obj_get (process_results fx_env (job_outDir fx_env fx_base)
       [Ok ''/w/clones/h_7/assets/s.css'' ''a{b:url(bg.png)}c{d:url(no.png)}'' ''http://h/s.css''] [])
     ''http://h/s.css'' = Some ''assets/s.css''"
    by (simp add: fx_dirs obj_get_def rel_run fx_run)
  have d: "obj_get (fst (job_css fx_env w1 fx_base fx_assets)) ''http://h/bg.png'' = Some ''assets/bg.png''"
    by (simp add: fx_css_map obj_get_def)
  show ?thesis
    using urlToLocal_never_reassigned [OF a b, of "''http://h/s.css''" "''assets/s.css''"] c d
    by blast
qed

section \<open>Rewriting single-valued attributes\<close>

text \<open>A string that holds \<open>//\<close>, as a URL of the form \<open>scheme://...\<close> does.\<close>

fun double_slash :: "string \<Rightarrow> bool" where
  "double_slash (a # b # cs) = ((a = CHR ''/'' \<and> b = CHR ''/'') \<or> double_slash (b # cs))"
| "double_slash [a] = False"
| "double_slash [] = False"

lemma double_slash_append:
  "CHR ''/'' \<notin> set x \<Longrightarrow> double_slash (x @ y) = double_slash y"
proof (induction x)
  case Nil
  show ?case by simp
next
  case (Cons a x)
  show ?case
  proof (cases "x @ y")
    case Nil
    then show ?thesis by simp
  next
    case (Cons b cs)
    then have "double_slash (a # x @ y) = double_slash (x @ y)"
      using Cons.prems by auto
    then show ?thesis
      using Cons.IH Cons.prems by simp
  qed
qed

lemma hd_join_with: "x \<noteq> [] \<Longrightarrow> hd (join_with sep (x # xs)) = hd x"
  by (cases xs) simp_all

lemma join_with_Nil_iff: "\<forall>s \<in> set xs. s \<noteq> [] \<Longrightarrow> (join_with sep xs = []) = (xs = [])"
  by (induction sep xs rule: join_with.induct) simp_all

lemma join_with_no_double_slash:
  assumes "\<forall>s \<in> set xs. s \<noteq> [] \<and> CHR ''/'' \<notin> set s"
  shows "\<not> double_slash (join_with ''/'' xs)"
  using assms
proof (induction "''/''" xs rule: join_with.induct)
  case 1
  show ?case by simp
next
  case (2 x)
  then show ?case using double_slash_append [of x "[]"] by simp
next
  case (3 x y ys)
  let ?rest = "join_with ''/'' (y # ys)"
  have y: "y \<noteq> []" "CHR ''/'' \<notin> set y" and ys: "\<forall>s \<in> set ys. s \<noteq> []"
    using "3.prems" by simp_all
  have "hd y \<in> set y"
    using y(1) by simp
  then have "hd y \<noteq> CHR ''/''"
    using y(2) by metis
  moreover have "hd ?rest = hd y"
    using y(1) by (rule hd_join_with)
  moreover have "?rest \<noteq> []"
    using join_with_Nil_iff [of "y # ys" "''/''"] y(1) ys by simp
  ultimately have r: "?rest \<noteq> []" "hd ?rest \<noteq> CHR ''/''"
    by simp_all
  have n: "\<not> double_slash ?rest"
    using 3 by simp
  have "double_slash (x @ CHR ''/'' # ?rest) = double_slash (CHR ''/'' # ?rest)"
    using "3.prems" by (simp add: double_slash_append)
  also have "\<dots> = False"
    using r n by (cases ?rest) simp_all
  finally show ?case by simp
qed

lemma split_on_free: "s \<in> set (split_on c xs) \<Longrightarrow> c \<notin> set s"
proof (induction xs arbitrary: s)
  case Nil
  then show ?case by simp
next
  case (Cons x xs)
  show ?case
  proof (cases "x = c")
    case True
    then show ?thesis using Cons by auto
  next
    case False
    show ?thesis
    proof (cases "split_on c xs")
      case Nil
      then show ?thesis using Cons.prems False by simp
    next
      case (Cons y ys)
      then have "s = x # y \<or> s \<in> set ys"
        using Cons.prems False by simp
      moreover have "c \<notin> set y" "\<forall>t \<in> set ys. c \<notin> set t"
        using Cons.IH Cons by simp_all
      ultimately show ?thesis
        using False by auto
    qed
  qed
qed

lemma segments_free: "s \<in> set (segments p) \<Longrightarrow> s \<noteq> [] \<and> CHR ''/'' \<notin> set s"
  by (auto simp: segments_def dest: split_on_free)

lemma strip_common_subset: "set (snd (strip_common xs ys)) \<subseteq> set ys"
  by (induction xs ys rule: strip_common.induct) auto


lemma path_relative_no_double_slash: "\<not> double_slash (path_relative wd from to)"
proof -
  have "\<not> double_slash (join_with ''/'' (replicate n ''..'' @ snd (strip_common xs (segments t))))"
    for n xs t
  proof (rule join_with_no_double_slash, rule ballI)
    fix s
    assume "s \<in> set (replicate n ''..'' @ snd (strip_common xs (segments t)))"
    then have "s = ''..'' \<or> s \<in> set (segments t)"
      using strip_common_subset [of xs "segments t"] by auto
    then show "s \<noteq> [] \<and> CHR ''/'' \<notin> set s"
      using segments_free [of s t] by auto
  qed
  then show ?thesis
    by (simp add: path_relative_def Let_def split: prod.splits) (metis snd_conv)
qed


text \<open>The final map of a job holds, for every URL, the local path of that URL.\<close>

lemma job_css_consistent:
  "consistent e (job_outDir e base) (job_assetsDir e base) (fst (job_css e w base assetUrls))"
proof -
  let ?outDir = "job_outDir e base"
  let ?assetsDir = "job_assetsDir e base"
  let ?m0 = "job_initial_map e w base assetUrls"
  have "list_all (downloaded_into e ?assetsDir) (fst (job_results e w base assetUrls))"
    using download_batch_into [of e ?assetsDir w "drop 0 assetUrls"]
    by (simp add: job_results_def batch_loop_download_batch)
  then have "grows e ?outDir ?assetsDir [] ?m0"
    unfolding job_initial_map_def by (rule process_results_grows)
  then have "consistent e ?outDir ?assetsDir ?m0"
    by (simp add: grows_def consistent_Nil)
  moreover have "grows e ?outDir ?assetsDir ?m0 (fst (job_css e w base assetUrls))"
    using css_phase_grows [of e ?outDir ?assetsDir "(?m0, snd (job_results e w base assetUrls))" ?m0]
    by (simp add: job_css_def job_css_after_def)
  ultimately show ?thesis
    by (simp add: grows_def)
qed

text \<open>In the map of a job a local path holds no \<open>//\<close>, so it is not a URL of the form
  \<open>scheme://...\<close>: a URL of that form is never mapped to itself.\<close>

lemma job_local_path_not_url:
  assumes "obj_get (fst (job_css e w base assetUrls)) k = Some p"
  shows "\<not> double_slash p" and "double_slash k \<Longrightarrow> p \<noteq> k"
proof -
  have "local_path e (job_outDir e base) (job_assetsDir e base) k = Some p"
    using consistent_get [OF job_css_consistent assms] .
  then show "\<not> double_slash p"
    by (auto simp: local_path_def path_relative_no_double_slash split: option.splits)
  then show "double_slash k \<Longrightarrow> p \<noteq> k"
    by auto
qed

text \<open>What the passes of \<open>rewrite_html\<close> do to one element.\<close>

fun rewrite_el ::
  "env \<Rightarrow> (string \<times> string) list \<Rightarrow> url \<Rightarrow> (string \<times> string) list \<Rightarrow> element \<Rightarrow> element" where
  "rewrite_el e m base [] el = el"
| "rewrite_el e m base (sel # sels) el =
     rewrite_el e m base sels (if matches sel el then mapAttr_el e m base (snd sel) el else el)"

lemma rewrite_html_map:
  "rewrite_html e m base sels doc = map (\<lambda>el. rewrite_el e m base sels el) doc"
proof (induction sels arbitrary: doc)
  case Nil
  show ?case by simp
next
  case (Cons sel sels)
  show ?case by (simp add: Cons.IH mapAttr_def comp_def)
qed

text \<open>
  The case left aside below: a \<open>video\<close> whose \<open>poster\<close> is non-empty, resolves and has no
  (non-empty) entry in the map. There the code writes the placeholder into \<open>src\<close>, where
  \<open>poster\<close> was meant, so the \<open>poster\<close> keeps its value and the \<open>src\<close> of the \<open>video\<close>, mapped
  or not, is lost.
\<close>

definition poster_unmapped :: "env \<Rightarrow> (string \<times> string) list \<Rightarrow> url \<Rightarrow> element \<Rightarrow> bool" where
  "poster_unmapped e m base el =
     (if tag el = ''video'' then
        (case attr_get el ''poster'' of
           None \<Rightarrow> False
         | Some v \<Rightarrow>
             if v = [] then False
             else (case URL_new e v (Some (href base)) of
                     None \<Rightarrow> False
                   | Some a \<Rightarrow> obj_get m (href a) \<in> set [None, Some []]))
      else False)"

lemma truthy_iff: "truthy x = (x \<notin> set [None, Some []])"
  by (cases x) auto

lemma attr_set_tag: "tag (attr_set el a v) = tag el"
  by (simp add: attr_set_def)

lemma mapAttr_el_tag: "tag (mapAttr_el e m base attr el) = tag el"
  by (simp add: mapAttr_el_def attr_set_tag split: option.splits)

lemma mapAttr_el_step:
  "(if matches sel el then mapAttr_el e m base (snd sel) el else el) =
   (if tag el = fst sel then mapAttr_el e m base (snd sel) el else el)"
  by (auto simp: matches_def mapAttr_el_def)

lemma mapAttr_el_cases:
  "mapAttr_el e m base attr el = el
   \<or> (\<exists>x. mapAttr_el e m base attr el = attr_set el attr x)
   \<or> (attr = ''src'' \<or> attr = ''poster'') \<and> (\<exists>x. mapAttr_el e m base attr el = attr_set el ''src'' x)"
proof (cases "attr_get el attr")
  case None
  then show ?thesis by (simp add: mapAttr_el_def)
next
  case (Some v)
  show ?thesis
  proof (cases "v = []")
    case True
    then show ?thesis using Some by (simp add: mapAttr_el_def)
  next
    case False
    show ?thesis
    proof (cases "attr = ''srcset''")
      case True
      then show ?thesis
        using Some False by (cases "rewrite_srcset e m base v") (auto simp: mapAttr_el_def)
    next
      case ns: False
      show ?thesis
      proof (cases "URL_new e v (Some (href base))")
        case None
        then show ?thesis using Some False ns by (simp add: mapAttr_el_def)
      next
        case a: (Some a)
        show ?thesis
        proof (cases "truthy (obj_get m (href a))")
          case True
          then have "mapAttr_el e m base attr el = attr_set el attr (or_else (obj_get m (href a)) [])"
            using Some False ns a by (simp add: mapAttr_el_def)
          then show ?thesis by blast
        next
          case nt: False
          show ?thesis
          proof (cases "attr = ''src'' \<or> attr = ''poster''")
            case True
            then have "mapAttr_el e m base attr el = attr_set el ''src''
                     (placeholder (or_else (attr_get el ''width'') ''400'')
                        (or_else (attr_get el ''height'') ''300''))"
              using Some False ns a nt by (simp add: mapAttr_el_def)
            then show ?thesis using True by blast
          next
            case False
            then show ?thesis using Some \<open>v \<noteq> []\<close> ns a nt by (simp add: mapAttr_el_def)
          qed
        qed
      qed
    qed
  qed
qed

lemma mapAttr_el_frame:
  assumes "a' \<noteq> attr" and "a' \<noteq> ''src''"
  shows "attr_get (mapAttr_el e m base attr el) a' = attr_get el a'"
proof -
  have "attr_get (attr_set el k x) a' = attr_get el a'" if "k = attr \<or> k = ''src''" for k x
    using that assms by (auto simp: attr_get_attr_set)
  then show ?thesis
    using mapAttr_el_cases [of e m base attr el] by metis
qed

lemma mapAttr_el_srcset_frame:
  assumes "a' \<noteq> ''srcset''"
  shows "attr_get (mapAttr_el e m base ''srcset'' el) a' = attr_get el a'"
proof -
  have "attr_get (attr_set el ''srcset'' x) a' = attr_get el a'" for x
    using assms by (simp add: attr_get_attr_set)
  moreover have "mapAttr_el e m base ''srcset'' el = el
      \<or> (\<exists>x. mapAttr_el e m base ''srcset'' el = attr_set el ''srcset'' x)"
    using mapAttr_el_cases [of e m base "''srcset''" el] by simp
  ultimately show ?thesis by metis
qed


text \<open>The passes that apply to an element, by its tag.\<close>

lemma rewrite_el_by_tag:
  "tag el = ''link'' \<Longrightarrow> rewrite_el e m base assetSelectors el = mapAttr_el e m base ''href'' el"
  "tag el = ''script'' \<Longrightarrow> rewrite_el e m base assetSelectors el = mapAttr_el e m base ''src'' el"
  "tag el = ''img'' \<Longrightarrow> rewrite_el e m base assetSelectors el =
      mapAttr_el e m base ''srcset'' (mapAttr_el e m base ''src'' el)"
  "tag el = ''source'' \<Longrightarrow> rewrite_el e m base assetSelectors el = mapAttr_el e m base ''src'' el"
  "tag el = ''audio'' \<Longrightarrow> rewrite_el e m base assetSelectors el = mapAttr_el e m base ''src'' el"
  "tag el = ''video'' \<Longrightarrow> rewrite_el e m base assetSelectors el =
      mapAttr_el e m base ''poster'' (mapAttr_el e m base ''src'' el)"
  "tag el = ''meta'' \<Longrightarrow> rewrite_el e m base assetSelectors el = mapAttr_el e m base ''content'' el"
  "tag el = ''object'' \<Longrightarrow> rewrite_el e m base assetSelectors el = mapAttr_el e m base ''data'' el"
  by (simp_all add: assetSelectors_def mapAttr_el_step mapAttr_el_tag)


lemma mapAttr_el_absent: "attr_get el attr = None \<Longrightarrow> mapAttr_el e m base attr el = el"
  by (simp add: mapAttr_el_def)

lemma mapAttr_el_single:
  assumes "attr \<noteq> ''srcset''" and "attr_get el attr = Some v"
  shows "mapAttr_el e m base attr el =
     (if v = [] \<or> URL_new e v (Some (href base)) = None then el
      else if truthy (obj_get m (href (the (URL_new e v (Some (href base))))))
        then attr_set el attr (or_else (obj_get m (href (the (URL_new e v (Some (href base)))))) [])
      else if attr = ''src'' \<or> attr = ''poster''
        then attr_set el ''src''
               (placeholder (or_else (attr_get el ''width'') ''400'')
                  (or_else (attr_get el ''height'') ''300''))
      else el)"
  using assms by (cases "URL_new e v (Some (href base))") (simp_all add: mapAttr_el_def)

lemma mapAttr_el_poster_value:
  assumes "attr_get x ''poster'' = attr_get y ''poster''"
  shows "attr_get (mapAttr_el e m base ''poster'' x) ''poster'' =
         attr_get (mapAttr_el e m base ''poster'' y) ''poster''"
proof (cases "attr_get y ''poster''")
  case None
  then show ?thesis using assms by (simp add: mapAttr_el_absent)
next
  case (Some v)
  have x: "attr_get x ''poster'' = Some v" using Some assms by simp
  show ?thesis
    by (simp add: mapAttr_el_single [OF _ x] mapAttr_el_single [OF _ Some] attr_get_attr_set x Some)
qed

lemma mapAttr_el_poster_frame:
  assumes "\<not> poster_unmapped e m base el" and "tag el = ''video''" and "a' \<noteq> ''poster''"
  shows "attr_get (mapAttr_el e m base ''poster'' el) a' = attr_get el a'"
proof (cases "attr_get el ''poster''")
  case None
  then show ?thesis by (simp add: mapAttr_el_absent)
next
  case (Some v)
  have "v = [] \<or> URL_new e v (Some (href base)) = None
        \<or> truthy (obj_get m (href (the (URL_new e v (Some (href base))))))"
    using assms(1,2) Some
    by (cases "URL_new e v (Some (href base))") (auto simp: poster_unmapped_def truthy_iff)
  then show ?thesis
    using assms(3) by (auto simp: mapAttr_el_single [OF _ Some] attr_get_attr_set)
qed

lemma poster_unmapped_src:
  "poster_unmapped e m base (mapAttr_el e m base ''src'' el) = poster_unmapped e m base el"
  by (simp add: poster_unmapped_def mapAttr_el_frame mapAttr_el_tag)

text \<open>The value of a single-valued attribute after all passes is its value after its own pass.\<close>

lemma rewrite_el_attr:
  assumes "(tag el, attr) \<in> set assetSelectors" and "attr \<noteq> ''srcset''"
    and "\<not> poster_unmapped e m base el"
  shows "attr_get (rewrite_el e m base assetSelectors el) attr = attr_get (mapAttr_el e m base attr el) attr"
proof -
  have "tag el = ''link'' \<and> attr = ''href'' \<or> tag el = ''script'' \<and> attr = ''src''
      \<or> tag el = ''img'' \<and> attr = ''src'' \<or> tag el = ''source'' \<and> attr = ''src''
      \<or> tag el = ''audio'' \<and> attr = ''src'' \<or> tag el = ''video'' \<and> attr = ''src''
      \<or> tag el = ''video'' \<and> attr = ''poster'' \<or> tag el = ''meta'' \<and> attr = ''content''
      \<or> tag el = ''object'' \<and> attr = ''data''"
    using assms(1,2) by (simp add: assetSelectors_def)
  then show ?thesis
  proof (elim disjE conjE, goal_cases)
    case 1
    then show ?case by (simp only: rewrite_el_by_tag)
  next
    case 2
    then show ?case by (simp only: rewrite_el_by_tag)
  next
    case 3
    then show ?case by (simp add: rewrite_el_by_tag(3) mapAttr_el_srcset_frame)
  next
    case 4
    then show ?case by (simp only: rewrite_el_by_tag)
  next
    case 5
    then show ?case by (simp only: rewrite_el_by_tag)
  next
    case 6
    have "\<not> poster_unmapped e m base (mapAttr_el e m base ''src'' el)"
      using assms(3) by (simp add: poster_unmapped_src)
    then show ?case
      using 6 by (simp add: rewrite_el_by_tag(6) mapAttr_el_poster_frame mapAttr_el_tag)
  next
    case 7
    have "attr_get (mapAttr_el e m base ''src'' el) ''poster'' = attr_get el ''poster''"
      by (simp add: mapAttr_el_frame)
    then show ?case
      using 7 mapAttr_el_poster_value [of "mapAttr_el e m base ''src'' el" el e m base]
      by (simp add: rewrite_el_by_tag(6))
  next
    case 8
    then show ?case by (simp only: rewrite_el_by_tag)
  next
    case 9
    then show ?case by (simp only: rewrite_el_by_tag)
  qed
qed

lemma rewrite_el_unchanged:
  assumes "(tag el, attr) \<in> set assetSelectors" and "attr \<noteq> ''srcset''"
    and "attr \<noteq> ''src''" and "attr \<noteq> ''poster''"
  shows "rewrite_el e m base assetSelectors el = mapAttr_el e m base attr el"
proof -
  have "tag el = ''link'' \<and> attr = ''href'' \<or> tag el = ''meta'' \<and> attr = ''content''
      \<or> tag el = ''object'' \<and> attr = ''data''"
    using assms by (simp add: assetSelectors_def)
  then show ?thesis
  proof (elim disjE conjE, goal_cases)
    case 1
    then show ?case by (simp only: rewrite_el_by_tag)
  next
    case 2
    then show ?case by (simp only: rewrite_el_by_tag)
  next
    case 3
    then show ?case by (simp only: rewrite_el_by_tag)
  qed
qed


text \<open>
  C5, as the code has it, read on the rewritten document. Take an element of the document
  that a selector \<open>tag[attr]\<close> of the catalogue matches, \<open>attr\<close> being single-valued, the case
  of \<open>poster_unmapped\<close> apart. If the value is non-empty and resolves to a URL with a
  non-empty entry in the map, the attribute of the rewritten element holds that local
  path; so the absolute URL does not survive there when the local path is another string,
  which it is for every URL of the form \<open>scheme://...\<close> in the map of a job. If the value is
  non-empty and resolves to a URL without such an entry: when the attribute is \<open>src\<close> (on
  any tag of the catalogue: \<open>script\<close>, \<open>img\<close>, \<open>source\<close>, \<open>audio\<close>, \<open>video\<close>), the \<open>src\<close> of the
  rewritten element is the placeholder sized from the declared \<open>width\<close> and \<open>height\<close> (\<open>400\<close>
  and \<open>300\<close> by default); when it is neither \<open>src\<close> nor \<open>poster\<close> (\<open>href\<close>, \<open>content\<close>, \<open>data\<close>),
  the element is left as it is. An empty value and a value that does not resolve are
  kept.
\<close>

theorem rewrite_html_single_valued:
  assumes "i < length doc"
    and "(tag (doc ! i), attr) \<in> set assetSelectors"
    and "attr \<noteq> ''srcset''"
    and "attr_get (doc ! i) attr = Some v"
    and "\<not> poster_unmapped e m base (doc ! i)"
  shows "(\<forall>a p. v \<noteq> [] \<and> URL_new e v (Some (href base)) = Some a
                \<and> obj_get m (href a) = Some p \<and> p \<noteq> [] \<longrightarrow>
            attr_get (rewrite_html e m base assetSelectors doc ! i) attr = Some p
            \<and> (p \<noteq> href a \<longrightarrow>
                 attr_get (rewrite_html e m base assetSelectors doc ! i) attr \<noteq> Some (href a)))
    \<and> (\<forall>a p w assetUrls. v \<noteq> [] \<and> URL_new e v (Some (href base)) = Some a
                \<and> obj_get m (href a) = Some p \<and> p \<noteq> []
                \<and> m = fst (job_css e w base assetUrls) \<and> double_slash (href a) \<longrightarrow>
            attr_get (rewrite_html e m base assetSelectors doc ! i) attr \<noteq> Some (href a))
    \<and> (\<forall>a. v \<noteq> [] \<and> URL_new e v (Some (href base)) = Some a
              \<and> obj_get m (href a) \<in> set [None, Some []] \<and> attr = ''src'' \<longrightarrow>
            attr_get (rewrite_html e m base assetSelectors doc ! i) ''src'' =
              Some (placeholder (or_else (attr_get (doc ! i) ''width'') ''400'')
                      (or_else (attr_get (doc ! i) ''height'') ''300'')))
    \<and> (\<forall>a. v \<noteq> [] \<and> URL_new e v (Some (href base)) = Some a
              \<and> obj_get m (href a) \<in> set [None, Some []]
              \<and> attr \<noteq> ''src'' \<and> attr \<noteq> ''poster'' \<longrightarrow>
            rewrite_html e m base assetSelectors doc ! i = doc ! i)
    \<and> (v = [] \<or> URL_new e v (Some (href base)) = None \<longrightarrow>
            attr_get (rewrite_html e m base assetSelectors doc ! i) attr = Some v)"
proof -
  let ?el = "doc ! i"
  let ?el' = "rewrite_html e m base assetSelectors doc ! i"
  have n: "?el' = rewrite_el e m base assetSelectors ?el"
    using assms(1) by (simp add: rewrite_html_map)
  have g: "attr_get ?el' attr = attr_get (mapAttr_el e m base attr ?el) attr"
    using rewrite_el_attr [OF assms(2,3,5)] by (simp only: n)
  note s = mapAttr_el_single [OF assms(3,4), of e m base]
  have a: "attr_get ?el' attr = Some p \<and> (p \<noteq> href a \<longrightarrow> attr_get ?el' attr \<noteq> Some (href a))"
    if "v \<noteq> [] \<and> URL_new e v (Some (href base)) = Some a \<and> obj_get m (href a) = Some p \<and> p \<noteq> []"
    for a p
    using that by (simp add: g s attr_get_attr_set)
  have j: "attr_get ?el' attr \<noteq> Some (href a)"
    if "v \<noteq> [] \<and> URL_new e v (Some (href base)) = Some a \<and> obj_get m (href a) = Some p \<and> p \<noteq> []
          \<and> m = fst (job_css e w base assetUrls) \<and> double_slash (href a)"
    for a p w assetUrls
  proof -
    have h: "v \<noteq> [] \<and> URL_new e v (Some (href base)) = Some a \<and> obj_get m (href a) = Some p \<and> p \<noteq> []"
      and d: "double_slash (href a)"
      using that by blast+
    have "obj_get (fst (job_css e w base assetUrls)) (href a) = Some p"
      using that by auto
    then have "p \<noteq> href a"
      using d by (rule job_local_path_not_url(2))
    moreover have "attr_get ?el' attr = Some p"
      using a [OF h] by (rule conjunct1)
    ultimately show ?thesis
      by simp
  qed
  have b: "attr_get ?el' ''src'' =
              Some (placeholder (or_else (attr_get ?el ''width'') ''400'')
                      (or_else (attr_get ?el ''height'') ''300''))"
    if "v \<noteq> [] \<and> URL_new e v (Some (href base)) = Some a
          \<and> obj_get m (href a) \<in> set [None, Some []] \<and> attr = ''src''"
    for a
  proof -
    have h: "v \<noteq> []" "URL_new e v (Some (href base)) = Some a" "\<not> truthy (obj_get m (href a))"
      using that by (simp_all add: truthy_iff)
    have "mapAttr_el e m base attr ?el =
            (if attr = ''src'' \<or> attr = ''poster''
             then attr_set ?el ''src''
                    (placeholder (or_else (attr_get ?el ''width'') ''400'')
                       (or_else (attr_get ?el ''height'') ''300''))
             else ?el)"
      using h by (simp add: s)
    then have "attr_get (mapAttr_el e m base attr ?el) attr =
              Some (placeholder (or_else (attr_get ?el ''width'') ''400'')
                      (or_else (attr_get ?el ''height'') ''300''))"
      using that by (simp add: attr_get_attr_set)
    then show ?thesis
      using that g by simp
  qed
  have c: "?el' = ?el"
    if "v \<noteq> [] \<and> URL_new e v (Some (href base)) = Some a
          \<and> obj_get m (href a) \<in> set [None, Some []] \<and> attr \<noteq> ''src'' \<and> attr \<noteq> ''poster''"
    for a
  proof -
    have t: "\<not> truthy (obj_get m (href a))"
      using that by (simp add: truthy_iff)
    have ne: "attr \<noteq> ''src''" "attr \<noteq> ''poster''"
      using that by simp_all
    have "rewrite_el e m base assetSelectors ?el = mapAttr_el e m base attr ?el"
      by (rule rewrite_el_unchanged [OF assms(2,3) ne])
    then have "?el' = mapAttr_el e m base attr ?el"
      by (simp only: n)
    also have "\<dots> = ?el"
      using that t by (simp add: s)
    finally show ?thesis .
  qed
  have d: "attr_get ?el' attr = Some v"
    if "v = [] \<or> URL_new e v (Some (href base)) = None"
    using that assms(4) by (simp add: g s)
  have A: "\<forall>a p. v \<noteq> [] \<and> URL_new e v (Some (href base)) = Some a
                \<and> obj_get m (href a) = Some p \<and> p \<noteq> [] \<longrightarrow>
            attr_get ?el' attr = Some p \<and> (p \<noteq> href a \<longrightarrow> attr_get ?el' attr \<noteq> Some (href a))"
    by (intro allI impI) (rule a, assumption)
  have J: "\<forall>a p w assetUrls. v \<noteq> [] \<and> URL_new e v (Some (href base)) = Some a
                \<and> obj_get m (href a) = Some p \<and> p \<noteq> []
                \<and> m = fst (job_css e w base assetUrls) \<and> double_slash (href a) \<longrightarrow>
            attr_get ?el' attr \<noteq> Some (href a)"
    by (intro allI impI) (rule j, assumption)
  have B: "\<forall>a. v \<noteq> [] \<and> URL_new e v (Some (href base)) = Some a
              \<and> obj_get m (href a) \<in> set [None, Some []] \<and> attr = ''src'' \<longrightarrow>
            attr_get ?el' ''src'' =
              Some (placeholder (or_else (attr_get ?el ''width'') ''400'')
                      (or_else (attr_get ?el ''height'') ''300''))"
    by (intro allI impI) (rule b, assumption)
  have C: "\<forall>a. v \<noteq> [] \<and> URL_new e v (Some (href base)) = Some a
              \<and> obj_get m (href a) \<in> set [None, Some []]
              \<and> attr \<noteq> ''src'' \<and> attr \<noteq> ''poster'' \<longrightarrow> ?el' = ?el"
    by (intro allI impI) (rule c, assumption)
  have D: "v = [] \<or> URL_new e v (Some (href base)) = None \<longrightarrow> attr_get ?el' attr = Some v"
    by (intro impI) (rule d, assumption)
  show ?thesis
    using A J B C D by (intro conjI)
qed



definition fx_script :: element where "fx_script = \<lparr>tag = ''script'', attrs = [(''src'', ''app.js'')]\<rparr>"
definition fx_video :: element where "fx_video = \<lparr>tag = ''video'', attrs = [(''poster'', ''http://h/p.png''), (''height'', ''90'')]\<rparr>"

text \<open>
  C5 as stated fails on the code: with nothing downloaded, the HTML rewriter puts the
  placeholder image into the \<open>src\<close> of a \<open>script\<close> element (which is no image or media
  element), and for a \<open>video\<close> with a \<open>poster\<close> it leaves the absolute URL in \<open>poster\<close> and
  adds a \<open>src\<close> attribute holding the placeholder. When the \<open>src\<close> of such a \<open>video\<close> is
  mapped, the local path that the \<open>src\<close> pass has written is overwritten by the placeholder
  of the \<open>poster\<close> pass.
\<close>

theorem mapAttr_placeholder_counterexample:
  "rewrite_html fx_env [] fx_base assetSelectors [fx_script, fx_video] =
     [\<lparr>tag = ''script'', attrs = [(''src'', ''https://placehold.co/400x300/EEE/31343C?text=Failed+to+Load'')]\<rparr>,
      \<lparr>tag = ''video'', attrs = [(''poster'', ''http://h/p.png''), (''height'', ''90''),
          (''src'', ''https://placehold.co/400x90/EEE/31343C?text=Failed+to+Load'')]\<rparr>]
   \<and> rewrite_html fx_env [(''http://h/a.png'', ''assets/a.png'')] fx_base assetSelectors
       [\<lparr>tag = ''video'', attrs = [(''src'', ''a.png''), (''poster'', ''http://h/p.png'')]\<rparr>] =
     [\<lparr>tag = ''video'', attrs = [(''src'', ''https://placehold.co/400x300/EEE/31343C?text=Failed+to+Load''),
          (''poster'', ''http://h/p.png'')]\<rparr>]"
  by (simp add: html_run fx_script_def fx_video_def)

definition fx_media_doc :: "element list" where
  "fx_media_doc =
     [\<lparr>tag = ''video'', attrs = [(''src'', ''a.png''), (''poster'', ''a.png'')]\<rparr>,
      \<lparr>tag = ''img'', attrs = [(''src'', ''x.png''), (''width'', ''10'')]\<rparr>,
      \<lparr>tag = ''link'', attrs = [(''href'', ''s.css'')]\<rparr>,
      \<lparr>tag = ''object'', attrs = [(''data'', ''http://['')]\<rparr>]"

theorem rewrite_html_single_valued_witness:
  "attr_get (rewrite_html fx_env [(''http://h/a.png'', ''assets/a.png'')] fx_base assetSelectors
       fx_media_doc ! 0) ''src'' = Some ''assets/a.png''
   \<and> attr_get (rewrite_html fx_env [(''http://h/a.png'', ''assets/a.png'')] fx_base assetSelectors
       fx_media_doc ! 0) ''src'' \<noteq> Some ''http://h/a.png''
   \<and> attr_get (rewrite_html fx_env [(''http://h/a.png'', ''assets/a.png'')] fx_base assetSelectors
       fx_media_doc ! 1) ''src'' = Some ''https://placehold.co/10x300/EEE/31343C?text=Failed+to+Load''
   \<and> rewrite_html fx_env [(''http://h/a.png'', ''assets/a.png'')] fx_base assetSelectors
       fx_media_doc ! 2 = \<lparr>tag = ''link'', attrs = [(''href'', ''s.css'')]\<rparr>
   \<and> attr_get (rewrite_html fx_env [(''http://h/a.png'', ''assets/a.png'')] fx_base assetSelectors
       fx_media_doc ! 3) ''data'' = Some ''http://[''
   \<and> attr_get (rewrite_html fx_env (fst (job_css fx_env w1 fx_base fx_assets)) fx_base
       assetSelectors fx_doc ! 0) ''href'' \<noteq> Some ''http://h/s.css''"
proof -
  let ?m = "[(''http://h/a.png'', ''assets/a.png'')]"
  let ?doc' = "rewrite_html fx_env ?m fx_base assetSelectors fx_media_doc"
  have u: "URL_new fx_env ''a.png'' (Some (href fx_base)) =
             Some \<lparr>href = ''http://h/a.png'', pathname = ''/a.png'', hostname = ''h''\<rparr>"
    "URL_new fx_env ''x.png'' (Some (href fx_base)) =
             Some \<lparr>href = ''http://h/x.png'', pathname = ''/x.png'', hostname = ''h''\<rparr>"
    "URL_new fx_env ''s.css'' (Some (href fx_base)) =
             Some \<lparr>href = ''http://h/s.css'', pathname = ''/s.css'', hostname = ''h''\<rparr>"
    "URL_new fx_env ''http://['' (Some (href fx_base)) = None"
    by (simp_all add: fx_env_fields fx_URL_def fx_rel_def fx_base_def)
  have g: "obj_get ?m ''http://h/a.png'' = Some ''assets/a.png''"
    "obj_get ?m ''http://h/x.png'' = None" "obj_get ?m ''http://h/s.css'' = None"
    by (simp_all add: obj_get_def)
  have el: "fx_media_doc ! 0 = \<lparr>tag = ''video'', attrs = [(''src'', ''a.png''), (''poster'', ''a.png'')]\<rparr>"
    "fx_media_doc ! 1 = \<lparr>tag = ''img'', attrs = [(''src'', ''x.png''), (''width'', ''10'')]\<rparr>"
    "fx_media_doc ! 2 = \<lparr>tag = ''link'', attrs = [(''href'', ''s.css'')]\<rparr>"
    "fx_media_doc ! 3 = \<lparr>tag = ''object'', attrs = [(''data'', ''http://['')]\<rparr>"
    "length fx_media_doc = 4"
    by (simp_all add: fx_media_doc_def)
  have el1: "fx_media_doc ! Suc 0 = \<lparr>tag = ''img'', attrs = [(''src'', ''x.png''), (''width'', ''10'')]\<rparr>"
    by (simp add: fx_media_doc_def)
  have np: "\<not> poster_unmapped fx_env ?m fx_base (fx_media_doc ! 0)"
    "\<not> poster_unmapped fx_env ?m fx_base (fx_media_doc ! 1)"
    "\<not> poster_unmapped fx_env ?m fx_base (fx_media_doc ! 2)"
    "\<not> poster_unmapped fx_env ?m fx_base (fx_media_doc ! 3)"
    by (simp_all add: el el1 poster_unmapped_def attr_get_def u g)
  have a: "attr_get (?doc' ! 0) ''src'' = Some ''assets/a.png''
           \<and> attr_get (?doc' ! 0) ''src'' \<noteq> Some ''http://h/a.png''"
    using rewrite_html_single_valued [of 0 fx_media_doc "''src''" "''a.png''" fx_env ?m fx_base]
      np(1) u(1) g(1)
    by (simp add: el assetSelectors_def attr_get_def)
  have b: "attr_get (?doc' ! 1) ''src'' = Some (placeholder ''10'' ''300'')"
    using rewrite_html_single_valued [of 1 fx_media_doc "''src''" "''x.png''" fx_env ?m fx_base]
      np(2) u(2) g(2)
    by (simp add: el el1 assetSelectors_def attr_get_def)
  have c: "?doc' ! 2 = \<lparr>tag = ''link'', attrs = [(''href'', ''s.css'')]\<rparr>"
    using rewrite_html_single_valued [of 2 fx_media_doc "''href''" "''s.css''" fx_env ?m fx_base]
      np(3) u(3) g(3)
    by (simp add: el assetSelectors_def attr_get_def)
  have d: "attr_get (?doc' ! 3) ''data'' = Some ''http://[''"
    using rewrite_html_single_valued [of 3 fx_media_doc "''data''" "''http://[''" fx_env ?m fx_base]
      np(4) u(4)
    by (simp add: el assetSelectors_def attr_get_def)
  let ?j = "fst (job_css fx_env w1 fx_base fx_assets)"
  have h: "0 < length fx_doc" "(tag (fx_doc ! 0), ''href'') \<in> set assetSelectors"
    "''href'' \<noteq> ''srcset''" "attr_get (fx_doc ! 0) ''href'' = Some ''s.css''"
    "\<not> poster_unmapped fx_env ?j fx_base (fx_doc ! 0)"
    by (simp_all add: fx_doc_def assetSelectors_def attr_get_def poster_unmapped_def)
  have k: "''s.css'' \<noteq> []
      \<and> URL_new fx_env ''s.css'' (Some (href fx_base)) =
           Some \<lparr>href = ''http://h/s.css'', pathname = ''/s.css'', hostname = ''h''\<rparr>
      \<and> obj_get ?j (href \<lparr>href = ''http://h/s.css'', pathname = ''/s.css'', hostname = ''h''\<rparr>) =
           Some ''assets/s.css''
      \<and> ''assets/s.css'' \<noteq> []
      \<and> ?j = fst (job_css fx_env w1 fx_base fx_assets)
      \<and> double_slash (href \<lparr>href = ''http://h/s.css'', pathname = ''/s.css'', hostname = ''h''\<rparr>)"
    using u(3) by (simp add: fx_css_map obj_get_def)
  have j: "attr_get (rewrite_html fx_env ?j fx_base assetSelectors fx_doc ! 0) ''href'' \<noteq>
             Some (href \<lparr>href = ''http://h/s.css'', pathname = ''/s.css'', hostname = ''h''\<rparr>)"
    using rewrite_html_single_valued [OF h, THEN conjunct2, THEN conjunct1, rule_format, OF k] .
  show ?thesis
    using a b c d j by (simp add: placeholder_def)
qed

section \<open>The manifest\<close>

lemma keys_obj_set:
  "map fst (obj_set m k v) = (if k \<in> set (map fst m) then map fst m else map fst m @ [k])"
  by (induction m) force+

lemma length_obj_set:
  "length (obj_set m k v) = (if k \<in> set (map fst m) then length m else Suc (length m))"
  using arg_cong [OF keys_obj_set [of m k v], of length] by (simp split: if_splits)

lemma distinct_obj_set: "distinct (map fst m) \<Longrightarrow> distinct (map fst (obj_set m k v))"
  by (simp add: keys_obj_set)

lemma css_fetch_ref_distinct:
  "distinct (map fst (fst mw)) \<Longrightarrow>
     distinct (map fst (fst (css_fetch_ref e outDir assetsDir originalUrl mw r)))"
  by (auto simp: css_fetch_ref_def distinct_obj_set split: option.splits prod.splits outcome.splits)

lemma css_fetch_loop_distinct:
  "distinct (map fst (fst mw)) \<Longrightarrow>
     distinct (map fst (fst (css_fetch_loop e outDir assetsDir originalUrl rs mw)))"
  by (induction rs arbitrary: mw) (auto simp: css_fetch_ref_distinct)

lemma css_process_distinct:
  assumes "distinct (map fst (fst mw))"
  shows "distinct (map fst (fst (css_process e outDir assetsDir mw entry)))"
proof -
  have "fst (css_process e outDir assetsDir mw entry) = fst mw \<or>
        (\<exists>rs. fst (css_process e outDir assetsDir mw entry) =
                fst (css_fetch_loop e outDir assetsDir (fst entry) rs mw))"
    by (auto simp: css_process_def Let_def split: option.splits prod.splits) (metis fst_conv)
  then show ?thesis
    using css_fetch_loop_distinct [OF assms] assms by auto
qed

lemma css_phase_distinct:
  "distinct (map fst (fst mw)) \<Longrightarrow>
     distinct (map fst (fst (css_phase e outDir assetsDir entries mw)))"
  by (induction entries arbitrary: mw) (auto simp: css_process_distinct)

lemma process_results_distinct:
  "distinct (map fst m) \<Longrightarrow> distinct (map fst (process_results e outDir rs m))"
  by (induction e outDir rs m rule: process_results.induct) (auto simp: distinct_obj_set)

lemma job_css_distinct: "distinct (map fst (fst (job_css e w base assetUrls)))"
  by (simp add: job_css_def job_css_after_def job_initial_map_def css_phase_distinct
      process_results_distinct)

lemma keys_card:
  assumes "distinct (map fst m)"
  shows "length (map fst m) = card (dom (obj_get m))"
proof -
  have "obj_get m = map_of m"
    by (rule ext) (simp add: obj_get_def)
  then have "dom (obj_get m) = set (map fst m)"
    by (simp add: dom_map_of_conv_image_fst)
  then show ?thesis
    using distinct_card [OF assms] by simp
qed

text \<open>
  C10. When the output directory can be made, the page is fetched, discovery succeeds and
  the final write is accepted, \<open>cloneWebsite\<close> returns a manifest whose \<open>failedDownloads\<close>
  is the number of failed outcomes of the batch phase (the CSS phase has no part in it)
  and whose \<open>assetsCount\<close> is the number of keys of the final map. In CSS processing, a
  nested asset that is not in the map and whose download fails leaves the map as it is;
  one whose download succeeds adds one key.
\<close>

theorem manifest_counts:
  assumes "urlStr \<noteq> []"
    and "URL_new e urlStr None = Some base"
    and "\<not> fs_fails e w Mkdir (job_assetsDir e base)"
    and "axios_get e (length (requests w)) urlStr = Some page"
    and "discover e base (load e page) = Inr assetUrls"
    and "\<not> writeFile_fails e
            (snd (job_css e (w\<lparr>requests := requests w @ [urlStr]\<rparr>) base assetUrls))
            (job_indexPath e base)"
  shows "(\<exists>man w'. cloneWebsite e w urlStr = (Returned_Manifest man, w')
            \<and> failedDownloads man =
                length (filter (\<lambda>r. \<not> ok r)
                  (fst (job_results e (w\<lparr>requests := requests w @ [urlStr]\<rparr>) base assetUrls)))
            \<and> assetsCount man =
                card (dom (obj_get
                  (fst (job_css e (w\<lparr>requests := requests w @ [urlStr]\<rparr>) base assetUrls)))))
    \<and> (\<forall>m wd cssUrl r a outDir assetsDir.
          \<not> is_data r \<and> URL_new e r (Some cssUrl) = Some a \<and> obj_get m (href a) = None \<longrightarrow>
            (if ok (fst (downloadAsset e wd (href a) assetsDir))
             then length (map fst (fst (css_fetch_ref e outDir assetsDir cssUrl (m, wd) r)))
                    = Suc (length (map fst m))
             else fst (css_fetch_ref e outDir assetsDir cssUrl (m, wd) r) = m))"
proof -
  let ?w = "w\<lparr>requests := requests w @ [urlStr]\<rparr>"
  have "assetsCount (the_manifest) = card (dom (obj_get (fst (job_css e ?w base assetUrls))))"
    if "the_manifest = \<lparr>status = s, message = ms, dir = d,
          assetsCount = length (map fst (fst (job_css e ?w base assetUrls))), failedDownloads = f\<rparr>"
    for the_manifest s ms d f
    using that keys_card [OF job_css_distinct [of e ?w base assetUrls]] by simp
  then have first: "\<exists>man w'. cloneWebsite e w urlStr = (Returned_Manifest man, w')
            \<and> failedDownloads man = length (filter (\<lambda>r. \<not> ok r) (fst (job_results e ?w base assetUrls)))
            \<and> assetsCount man = card (dom (obj_get (fst (job_css e ?w base assetUrls))))"
    using assms by (simp add: cloneWebsite_def job_finish_def Let_def)
  have second: "(if ok (fst (downloadAsset e wd (href a) assetsDir))
             then length (map fst (fst (css_fetch_ref e outDir assetsDir cssUrl (m, wd) r)))
                    = Suc (length (map fst m))
             else fst (css_fetch_ref e outDir assetsDir cssUrl (m, wd) r) = m)"
    if "\<not> is_data r" "URL_new e r (Some cssUrl) = Some a" "obj_get m (href a) = None"
    for m wd cssUrl r a outDir assetsDir
  proof -
    have "href a \<notin> set (map fst m)"
      using that(3) by (simp add: obj_get_def map_of_eq_None_iff)
    then show ?thesis
      using that by (cases "downloadAsset e wd (href a) assetsDir")
        (auto simp: css_fetch_ref_def length_obj_set split: outcome.splits)
  qed
  show ?thesis
    using first second by blast
qed

lemma fx_discover: "discover fx_env fx_base fx_doc = Inr fx_assets"
  by (simp add: discover_def assetSelectors_def matches_def discover_el_def attr_get_def fx_doc_def
      fx_assets_def set_add_def fx_base_def fx_env_fields fx_URL_def fx_rel_def)

lemma fx_page_run:
  "URL_new fx_env ''http://h/'' None = Some fx_base"
  "axios_get fx_env (length (requests w0)) ''http://h/'' = Some ''page''"
  "load fx_env ''page'' = fx_doc"
  "w0\<lparr>requests := requests w0 @ [''http://h/'']\<rparr> = w1"
  by (simp_all add: fx_env_fields fx_URL_def fx_base_def fx_net_def w0_def w1_def)

theorem manifest_counts_witness:
  "(\<exists>man w'. cloneWebsite fx_env w0 ''http://h/'' = (Returned_Manifest man, w')
       \<and> failedDownloads man = 1 \<and> assetsCount man = 2)
   \<and> fst (css_fetch_ref fx_env ''/w/clones/h_7'' ''/w/clones/h_7/assets'' ''http://h/s.css''
            ([(''http://h/s.css'', ''assets/s.css'')], w0) ''no.png'')
       = [(''http://h/s.css'', ''assets/s.css'')]"
proof -
  have d: "discover fx_env fx_base (load fx_env ''page'') = Inr fx_assets"
    by (simp add: fx_env_fields fx_discover)
  have k: "\<not> fs_fails fx_env w0 Mkdir (job_assetsDir fx_env fx_base)"
    by (simp add: fx_env_fields)
  have i: "\<not> writeFile_fails fx_env
            (snd (job_css fx_env (w0\<lparr>requests := requests w0 @ [''http://h/'']\<rparr>) fx_base fx_assets))
            (job_indexPath fx_env fx_base)"
    by (simp add: writeFile_fails_def fx_env_fields job_indexPath_def fx_dirs path_join_def
        path_normalize_def normalizeString_def)
  have f: "length (filter (\<lambda>r. \<not> ok r) (fst (job_results fx_env w1 fx_base fx_assets))) = 1"
    by (simp add: fx_job_results)
  have "dom (obj_get [(''http://h/s.css'', ''assets/s.css''), (''http://h/bg.png'', ''assets/bg.png'')])
          = {''http://h/s.css'', ''http://h/bg.png''}"
    by (auto simp: obj_get_def split: if_splits)
  then have c: "card (dom (obj_get (fst (job_css fx_env w1 fx_base fx_assets)))) = 2"
    by (simp add: fx_css_map)
  have n: "\<not> is_data ''no.png''
      \<and> URL_new fx_env ''no.png'' (Some ''http://h/s.css'')
          = Some \<lparr>href = ''http://h/no.png'', pathname = ''/no.png'', hostname = ''h''\<rparr>
      \<and> obj_get [(''http://h/s.css'', ''assets/s.css'')] ''http://h/no.png'' = None
      \<and> \<not> ok (fst (downloadAsset fx_env w0 ''http://h/no.png'' ''/w/clones/h_7/assets''))"
    by (simp add: is_data_def obj_get_def fx_run)
  note t = manifest_counts [OF _ fx_page_run(1) k fx_page_run(2) d i]
  have first: "\<exists>man w'. cloneWebsite fx_env w0 ''http://h/'' = (Returned_Manifest man, w')
       \<and> failedDownloads man = 1 \<and> assetsCount man = 2"
    using t f c by (auto simp: fx_page_run(4) simp del: One_nat_def)
  have "\<not> is_data ''no.png''
        \<and> URL_new fx_env ''no.png'' (Some ''http://h/s.css'')
            = Some \<lparr>href = ''http://h/no.png'', pathname = ''/no.png'', hostname = ''h''\<rparr>
        \<and> obj_get [(''http://h/s.css'', ''assets/s.css'')]
              (href \<lparr>href = ''http://h/no.png'', pathname = ''/no.png'', hostname = ''h''\<rparr>) = None
      \<longrightarrow>
        (if ok (fst (downloadAsset fx_env w0
                 (href \<lparr>href = ''http://h/no.png'', pathname = ''/no.png'', hostname = ''h''\<rparr>)
                 ''/w/clones/h_7/assets''))
         then length (map fst (fst (css_fetch_ref fx_env ''/w/clones/h_7'' ''/w/clones/h_7/assets''
                 ''http://h/s.css'' ([(''http://h/s.css'', ''assets/s.css'')], w0) ''no.png'')))
               = Suc (length (map fst [(''http://h/s.css'', ''assets/s.css'')]))
         else fst (css_fetch_ref fx_env ''/w/clones/h_7'' ''/w/clones/h_7/assets''
                 ''http://h/s.css'' ([(''http://h/s.css'', ''assets/s.css'')], w0) ''no.png'')
               = [(''http://h/s.css'', ''assets/s.css'')])"
    using t by blast
  then have second: "fst (css_fetch_ref fx_env ''/w/clones/h_7'' ''/w/clones/h_7/assets''
                 ''http://h/s.css'' ([(''http://h/s.css'', ''assets/s.css'')], w0) ''no.png'')
               = [(''http://h/s.css'', ''assets/s.css'')]"
    using n by simp
  show ?thesis
    using first second by blast
qed

section \<open>How \<open>cloneWebsite\<close> ends\<close>









section \<open>An inline image that holds a \<open>url(...)\<close>\<close>

lemma fx_svg_scan:
  "css_scan fx_svg_css =
     map Lit (''a{b:url('' @ [CHR 0x22] @ ''data:image/svg+xml,<svg fill='' @ [CHR 0x27])
       @ UrlMatch ''url(#g)'' ''#g'' # map Lit ([CHR 0x27] @ ''/>'' @ [CHR 0x22] @ '')}'')"
  by (simp add: fx_svg_css_def fx_svg_data_def css_run)

lemma fx_svg_download:
  "downloadAsset fx_env w ''http://h/svg.css'' ''/w/clones/h_7/assets'' =
     (Ok ''/w/clones/h_7/assets/svg.css'' fx_svg_css ''http://h/svg.css'',
      w\<lparr>requests := requests w @ [''http://h/svg.css''],
        files := (files w)(''/w/clones/h_7/assets/svg.css'' := Some fx_svg_css)\<rparr>)"
  "downloadAsset fx_env w ''http://h/svg.css#g'' ''/w/clones/h_7/assets'' =
     (Ok ''/w/clones/h_7/assets/svg.css'' fx_svg_css ''http://h/svg.css#g'',
      w\<lparr>requests := requests w @ [''http://h/svg.css#g''],
        files := (files w)(''/w/clones/h_7/assets/svg.css'' := Some fx_svg_css)\<rparr>)"
  by (simp_all add: downloadAsset_def fx_env_fields fx_net_def fx_URL_def asset_outPath_def
      safeFilename_def unsafe_char_def path_join_def path_normalize_def normalizeString_def
      path_resolve_def fs_writeFile_def writeFile_fails_def Let_def)

lemma fx_svg_results:
  "job_results fx_env w0 fx_base [''http://h/svg.css''] =
     ([Ok ''/w/clones/h_7/assets/svg.css'' fx_svg_css ''http://h/svg.css''],
      \<lparr>files = (\<lambda>p. None)(''/w/clones/h_7/assets/svg.css'' := Some fx_svg_css),
       requests = [''http://h/svg.css'']\<rparr>)"
  by (simp add: job_results_def fx_dirs batch_loop_download_batch fx_svg_download w0_def)

lemma fx_svg_initial_map:
  "job_initial_map fx_env w0 fx_base [''http://h/svg.css''] = [(''http://h/svg.css'', ''assets/svg.css'')]"
  by (simp add: job_initial_map_def fx_svg_results fx_dirs rel_run fx_env_fields path_resolve_def
      normalizeString_def)

lemma fx_svg_ref:
  "URL_new fx_env ''#g'' (Some ''http://h/svg.css'') =
     Some \<lparr>href = ''http://h/svg.css#g'', pathname = ''/svg.css'', hostname = ''h''\<rparr>"
  "fx_URL ''#g'' (Some ''http://h/svg.css'') =
     Some \<lparr>href = ''http://h/svg.css#g'', pathname = ''/svg.css'', hostname = ''h''\<rparr>"
  by (simp_all add: fx_env_fields fx_URL_def fx_rel_def)

lemma fx_svg_css_suffix: "suffix ''.css'' (toLowerCase ''http://h/svg.css'')"
  by (simp add: toLowerCase_def to_lower_char_def suffix_def)

lemma fx_svg_read:
  "fs_readFile fx_env
     \<lparr>files = (\<lambda>p. None)(''/w/clones/h_7/assets/svg.css'' := Some fx_svg_css), requests = rq\<rparr>
     (path_join [''/w/clones/h_7'', ''assets/svg.css'']) = Some fx_svg_css"
  by (simp add: fs_readFile_def fx_env_fields path_join_def path_normalize_def normalizeString_def
      path_resolve_def)

lemma fx_svg_fetch:
  "css_fetch_ref fx_env ''/w/clones/h_7'' ''/w/clones/h_7/assets'' ''http://h/svg.css''
     ([(''http://h/svg.css'', ''assets/svg.css'')],
      \<lparr>files = (\<lambda>p. None)(''/w/clones/h_7/assets/svg.css'' := Some fx_svg_css),
       requests = [''http://h/svg.css'']\<rparr>) ''#g'' =
   ([(''http://h/svg.css'', ''assets/svg.css''), (''http://h/svg.css#g'', ''assets/svg.css'')],
    \<lparr>files = (\<lambda>p. None)(''/w/clones/h_7/assets/svg.css'' := Some fx_svg_css),
     requests = [''http://h/svg.css'', ''http://h/svg.css#g'']\<rparr>)"
  by (simp add: css_fetch_ref_def is_data_def fx_svg_ref obj_get_def fx_svg_download rel_run
      fx_env_fields path_resolve_def normalizeString_def)

lemma fx_svg_replacer:
  "css_replacer fx_env ''/w/clones/h_7'' ''http://h/svg.css'' (path_join [''/w/clones/h_7'', ''assets/svg.css''])
     [(''http://h/svg.css'', ''assets/svg.css''), (''http://h/svg.css#g'', ''assets/svg.css'')]
     ''url(#g)'' ''#g'' = ''url('' @ [CHR 0x27] @ ''svg.css'' @ [CHR 0x27] @ '')''"
  by (simp add: css_replacer_def is_data_def fx_svg_ref obj_get_def rel_run fx_env_fields
      path_join_def path_normalize_def normalizeString_def path_resolve_def path_dirname_def)

text \<open>
  C9 against the code. In the stylesheet \<open>http://h/svg.css\<close>, which reads
  \<open>a{b:url("data:image/svg+xml,<svg fill='url(#g)'/>")}\<close>, the one \<open>url(...)\<close> occurrence
  refers to a \<open>data:\<close> URI. The pattern cannot match at the outer \<open>url(\<close>, because the
  reference holds a quote before the closing parenthesis, and it matches the \<open>url(#g)\<close>
  within the \<open>data:\<close> URI, whose reference \<open>#g\<close> does not start with \<open>data:\<close>. So the job
  requests \<open>http://h/svg.css#g\<close>, adds it to the map, and writes the stylesheet back with
  \<open>url('svg.css')\<close> in place of \<open>url(#g)\<close> inside the \<open>data:\<close> URI.
\<close>

theorem css_data_uri_rewritten:
  "is_data fx_svg_data
   \<and> fx_svg_css = ''a{b:url('' @ [CHR 0x22] @ fx_svg_data @ [CHR 0x22] @ '')}''
   \<and> css_refs (css_scan fx_svg_css) = [''#g'']
   \<and> job_css fx_env w0 fx_base [''http://h/svg.css''] =
       ([(''http://h/svg.css'', ''assets/svg.css''), (''http://h/svg.css#g'', ''assets/svg.css'')],
        \<lparr>files = (\<lambda>p. None)(''/w/clones/h_7/assets/svg.css'' :=
            Some (''a{b:url('' @ [CHR 0x22] @ ''data:image/svg+xml,<svg fill='' @ [CHR 0x27]
                    @ ''url('' @ [CHR 0x27] @ ''svg.css'' @ [CHR 0x27] @ '')'' @ [CHR 0x27]
                    @ ''/>'' @ [CHR 0x22] @ '')}'')),
         requests = [''http://h/svg.css'', ''http://h/svg.css#g'']\<rparr>)"
proof -
  have d: "is_data fx_svg_data"
    by (simp add: is_data_def fx_svg_data_def)
  have r: "css_refs (css_scan fx_svg_css) = [''#g'']"
    by (simp add: fx_svg_scan css_refs_append)
  have n: "css_rewrite fx_env ''/w/clones/h_7'' ''http://h/svg.css''
             (path_join [''/w/clones/h_7'', ''assets/svg.css''])
             [(''http://h/svg.css'', ''assets/svg.css''), (''http://h/svg.css#g'', ''assets/svg.css'')]
             fx_svg_css =
           ''a{b:url('' @ [CHR 0x22] @ ''data:image/svg+xml,<svg fill='' @ [CHR 0x27]
                    @ ''url('' @ [CHR 0x27] @ ''svg.css'' @ [CHR 0x27] @ '')'' @ [CHR 0x27]
                    @ ''/>'' @ [CHR 0x22] @ '')}''"
    by (simp add: css_rewrite_def fx_svg_scan fx_svg_replacer)
  have p: "css_process fx_env ''/w/clones/h_7'' ''/w/clones/h_7/assets''
      ([(''http://h/svg.css'', ''assets/svg.css'')],
       \<lparr>files = (\<lambda>p. None)(''/w/clones/h_7/assets/svg.css'' := Some fx_svg_css),
        requests = [''http://h/svg.css'']\<rparr>) (''http://h/svg.css'', ''assets/svg.css'') =
       ([(''http://h/svg.css'', ''assets/svg.css''), (''http://h/svg.css#g'', ''assets/svg.css'')],
        \<lparr>files = (\<lambda>p. None)(''/w/clones/h_7/assets/svg.css'' :=
            Some (''a{b:url('' @ [CHR 0x22] @ ''data:image/svg+xml,<svg fill='' @ [CHR 0x27]
                    @ ''url('' @ [CHR 0x27] @ ''svg.css'' @ [CHR 0x27] @ '')'' @ [CHR 0x27]
                    @ ''/>'' @ [CHR 0x22] @ '')}'')),
         requests = [''http://h/svg.css'', ''http://h/svg.css#g'']\<rparr>)"
    unfolding css_process_def
    apply (simp only: fst_conv snd_conv fx_svg_css_suffix if_True Let_def fx_svg_read option.case r
        css_fetch_loop.simps fx_svg_fetch prod.case n)
    apply (simp add: css_write_back_def writeFile_fails_def fx_env_fields fs_writeFile_def
        fx_svg_css_def fx_svg_data_def path_join_def path_normalize_def normalizeString_def
        path_resolve_def)
    done
  have "job_css fx_env w0 fx_base [''http://h/svg.css''] =
       ([(''http://h/svg.css'', ''assets/svg.css''), (''http://h/svg.css#g'', ''assets/svg.css'')],
        \<lparr>files = (\<lambda>p. None)(''/w/clones/h_7/assets/svg.css'' :=
            Some (''a{b:url('' @ [CHR 0x22] @ ''data:image/svg+xml,<svg fill='' @ [CHR 0x27]
                    @ ''url('' @ [CHR 0x27] @ ''svg.css'' @ [CHR 0x27] @ '')'' @ [CHR 0x27]
                    @ ''/>'' @ [CHR 0x22] @ '')}'')),
         requests = [''http://h/svg.css'', ''http://h/svg.css#g'']\<rparr>)"
    by (simp only: job_css_def job_css_after_def fx_svg_initial_map fx_svg_results fx_dirs
        css_phase.simps snd_conv p)
  then show ?thesis
    using d r by (simp add: fx_svg_css_def)
qed

section \<open>Unparseable references in discovery\<close>

text \<open>In a single-valued attribute no reference makes discovery fail.\<close>

lemma discover_el_single_valued:
  "attr \<noteq> ''srcset'' \<Longrightarrow> \<exists>s. discover_el e base attr el assetSet = Inr s"
  by (simp add: discover_el_def split: option.splits)

text \<open>
  C6 against the code. In a single-valued attribute an unparseable reference is skipped
  and discovery goes on: the first document below yields the URL of its \<open>object\<close>. In a
  \<open>srcset\<close> the same token raises: for the page \<open>http://h/bad\<close>, whose \<open>img\<close> has the \<open>srcset\<close>
  \<open>http://[ 1x, a.png 2x\<close>, discovery ends with the error, nothing else is discovered, and
  the error leaves \<open>cloneWebsite\<close>.
\<close>

theorem discovery_srcset_throws:
  "discover fx_env fx_base
      [\<lparr>tag = ''img'', attrs = [(''src'', ''http://['')]\<rparr>,
       \<lparr>tag = ''object'', attrs = [(''data'', ''a.png'')]\<rparr>] = Inr [''http://h/a.png'']
   \<and> discover fx_env fx_base fx_bad_doc = Inl (InvalidURL ''http://['')
   \<and> cloneWebsite fx_env w0 ''http://h/bad'' =
       (Thrown (InvalidURL ''http://[''), \<lparr>files = (\<lambda>p. None), requests = [''http://h/bad'']\<rparr>)"
  by (simp add: cloneWebsite_def discover_def assetSelectors_def matches_def discover_el_def
      attr_get_def set_add_def fx_bad_doc_def fx_base_def trim_def is_space_def
      fx_env_fields fx_URL_def fx_rel_def fx_net_def w0_def)

section \<open>The security check of \<open>downloadAsset\<close>\<close>

definition fx_evil_base :: url where
  "fx_evil_base = \<lparr>href = ''http://h/evil'', pathname = ''/evil'', hostname = ''h''\<rparr>"

definition fx_data_url :: string where
  "fx_data_url = ''data:../assets_evil/x;base64,aGk=''"

text \<open>A path lies within a root when, both resolved, the segments of the root are the
  first segments of the path.\<close>

definition path_within :: "string \<Rightarrow> string \<Rightarrow> string \<Rightarrow> bool" where
  "path_within wd root p = prefix (segments (path_resolve wd root)) (segments (path_resolve wd p))"

text \<open>What the check does ensure: a download that succeeds has written one file, at a
  resolved path that starts, as a string, with the resolved root.\<close>

lemma downloadAsset_string_prefix:
  assumes "downloadAsset e w urlStr outBaseDir = (Ok outPath content u, w')"
  shows "prefix (path_resolve (cwd e) outBaseDir) (path_resolve (cwd e) outPath)
    \<and> files w' = (files w)(path_resolve (cwd e) outPath := Some content)"
  using assms
  by (auto simp: downloadAsset_def fs_writeFile_def Let_def split: option.splits if_splits)

text \<open>
  C1 against the code. The security check compares the resolved paths as strings
  (\<open>startsWith\<close>), so a sibling of the root whose name starts with the root's name passes.
  The URL parser removes \<open>..\<close> segments from the path of an \<open>http\<close> URL, but the path of a
  \<open>data:\<close> URL is opaque and is kept as written. The page \<open>http://h/evil\<close> consists of
  \<open><img src="data:../assets_evil/x;base64,aGk=">\<close>. Discovery yields the \<open>data:\<close> URL; the
  HTTP client answers it (it decodes \<open>data:\<close> URLs itself); \<open>downloadAsset\<close> returns \<open>ok\<close> and
  writes the file \<open>/w/clones/h_7/assets_evil/x;base64,aGk=\<close>, which is not within the root
  \<open>/w/clones/h_7/assets\<close>; and the file is there when \<open>cloneWebsite\<close> has run on the page.
\<close>

theorem downloadAsset_writes_outside_root:
  "discover fx_env fx_evil_base fx_evil_doc = Inr [fx_data_url]
   \<and> downloadAsset fx_env w0 fx_data_url ''/w/clones/h_7/assets'' =
       (Ok ''/w/clones/h_7/assets_evil/x;base64,aGk='' ''hi'' fx_data_url,
        \<lparr>files = (\<lambda>p. None)(''/w/clones/h_7/assets_evil/x;base64,aGk='' := Some ''hi''),
         requests = [fx_data_url]\<rparr>)
   \<and> \<not> path_within ''/w'' ''/w/clones/h_7/assets'' ''/w/clones/h_7/assets_evil/x;base64,aGk=''
   \<and> files (snd (cloneWebsite fx_env w0 ''http://h/evil''))
         ''/w/clones/h_7/assets_evil/x;base64,aGk='' = Some ''hi''"
proof -
  have dirs: "job_outDir fx_env fx_evil_base = ''/w/clones/h_7''"
    "job_assetsDir fx_env fx_evil_base = ''/w/clones/h_7/assets''"
    by (simp_all add: job_assetsDir_def job_outDir_def fx_evil_base_def show_nat_7 fx_run)
  have d: "discover fx_env fx_evil_base fx_evil_doc = Inr [fx_data_url]"
    by (simp add: discover_def assetSelectors_def matches_def discover_el_def attr_get_def
        set_add_def fx_evil_base_def fx_evil_doc_def fx_data_url_def fx_env_fields fx_URL_def)
  have a: "downloadAsset fx_env w fx_data_url ''/w/clones/h_7/assets'' =
       (Ok ''/w/clones/h_7/assets_evil/x;base64,aGk='' ''hi'' fx_data_url,
        w\<lparr>requests := requests w @ [fx_data_url],
          files := (files w)(''/w/clones/h_7/assets_evil/x;base64,aGk='' := Some ''hi'')\<rparr>)" for w
    by (simp add: fx_data_url_def downloadAsset_def fx_env_fields fx_net_def fx_URL_def
        asset_outPath_def safeFilename_def unsafe_char_def path_join_def path_normalize_def
        normalizeString_def path_resolve_def fs_writeFile_def writeFile_fails_def Let_def)
  have n: "\<not> path_within ''/w'' ''/w/clones/h_7/assets'' ''/w/clones/h_7/assets_evil/x;base64,aGk=''"
    by (simp add: path_within_def segments_def path_resolve_def normalizeString_def)
  have r: "job_results fx_env w fx_evil_base [fx_data_url] =
       (fst (downloadAsset fx_env w fx_data_url ''/w/clones/h_7/assets'') # [],
        snd (downloadAsset fx_env w fx_data_url ''/w/clones/h_7/assets''))" for w
    by (simp add: job_results_def dirs batch_loop_download_batch split: prod.splits)
  have m: "job_initial_map fx_env w fx_evil_base [fx_data_url] =
       [(fx_data_url, ''assets_evil/x;base64,aGk='')]" for w
    by (simp add: job_initial_map_def r a dirs rel_run fx_env_fields path_resolve_def
        normalizeString_def)
  have nc: "\<not> suffix ''.css'' (toLowerCase fx_data_url)"
    by (simp add: fx_data_url_def toLowerCase_def to_lower_char_def suffix_to_prefix)
  have c: "snd (job_css fx_env w fx_evil_base [fx_data_url]) =
       snd (downloadAsset fx_env w fx_data_url ''/w/clones/h_7/assets'')" for w
    by (simp add: job_css_def job_css_after_def m r css_process_def nc)
  have u: "URL_new fx_env ''http://h/evil'' None = Some fx_evil_base"
    "axios_get fx_env n ''http://h/evil'' = Some ''evil page''"
    "load fx_env ''evil page'' = fx_evil_doc" for n
    by (simp_all add: fx_env_fields fx_URL_def fx_net_def fx_evil_base_def)
  have "files (snd (cloneWebsite fx_env w0 ''http://h/evil''))
         ''/w/clones/h_7/assets_evil/x;base64,aGk='' = Some ''hi''"
    by (simp add: cloneWebsite_def job_finish_def job_indexPath_def writeFile_fails_def Let_def
        u d c a dirs fs_writeFile_def fx_env_fields(1,7) path_join_def path_normalize_def normalizeString_def path_resolve_def)
  then show ?thesis
    using d a [of w0] n by (simp add: w0_def)
qed

end
